theory Spec2Isabelle
  imports Complex_Main
begin

section \<open>ExecutivePortfolio: project health, critical alerts, portfolio summary\<close>

text \<open>
  Source: \<^verbatim>\<open>src/domain/entities/ExecutivePortfolio.js\<close>.

  A project, as the entity reads it: its key and name and the three issue counts
  \<^verbatim>\<open>overdueIssues\<close>, \<^verbatim>\<open>blockedIssues\<close>, \<^verbatim>\<open>highPriorityIssues\<close>.
  The counts are JavaScript numbers holding integers; they are modelled as \<open>int\<close>, so a
  negative count is a value of the model (the code guards each deduction with \<open>> 0\<close>).
  Every intermediate value of the health computation is an integer of magnitude far
  below \<open>2^53\<close> once a cap has been applied, so integer arithmetic is exact there.
\<close>

record project =
  key :: string
  name :: string
  overdueIssues :: int
  blockedIssues :: int
  highPriorityIssues :: int

text \<open>
  The entity. \<^verbatim>\<open>lastUpdated = new Date()\<close> is wall-clock time and read by none of the
  methods below; it is left out.
\<close>

record ExecutivePortfolio =
  executiveId :: string
  projects :: "project list"

text \<open>
  \<^verbatim>\<open>constructor(executiveId, portfolioData)\<close>: \<^verbatim>\<open>portfolioData.projects || []\<close>; an
  absent project list is \<open>None\<close>.
\<close>

definition new_ExecutivePortfolio :: "string \<Rightarrow> project list option \<Rightarrow> ExecutivePortfolio" where
  "new_ExecutivePortfolio eid portfolioData_projects =
     \<lparr> executiveId = eid,
       projects = (case portfolioData_projects of None \<Rightarrow> [] | Some ps \<Rightarrow> ps) \<rparr>"

text \<open>
  \<^verbatim>\<open>_calculateProjectHealth\<close>, lines 43 to 63. \<open>calculateProjectHealth_score\<close> is the value
  of the local variable \<^verbatim>\<open>score\<close> when line 62 is reached; the method returns
  \<^verbatim>\<open>Math.max(0, score)\<close>.
\<close>

definition calculateProjectHealth_score :: "project \<Rightarrow> int" where
  "calculateProjectHealth_score p =
     (let score = 100;
          score = (if overdueIssues p > 0
                   then score - min 30 (overdueIssues p * 5) else score);
          score = (if blockedIssues p > 0
                   then score - min 20 (blockedIssues p * 3) else score);
          score = (if highPriorityIssues p > 0
                   then score - min 25 (highPriorityIssues p * 2) else score)
      in score)"

definition calculateProjectHealth :: "project \<Rightarrow> int" where
  "calculateProjectHealth p = max 0 (calculateProjectHealth_score p)"

text \<open>\<^verbatim>\<open>_isProjectCritical\<close>, lines 65 to 69.\<close>

definition isProjectCritical :: "project \<Rightarrow> bool" where
  "isProjectCritical p \<longleftrightarrow>
     calculateProjectHealth p < 50 \<or> overdueIssues p > 5 \<or> blockedIssues p > 3"

text \<open>
  The template literals of \<^verbatim>\<open>_getCriticalReason\<close> print a count in decimal
  (\<^verbatim>\<open>Number::toString\<close> of an integer below \<open>10^21\<close>).
\<close>

definition digit_char :: "nat \<Rightarrow> char" where
  "digit_char d = ''0123456789'' ! d"

fun decimal_of_nat :: "nat \<Rightarrow> string" where
  "decimal_of_nat n =
     (if n < 10 then [digit_char n]
      else decimal_of_nat (n div 10) @ [digit_char (n mod 10)])"

declare decimal_of_nat.simps [simp del]

definition decimal_of_int :: "int \<Rightarrow> string" where
  "decimal_of_int i =
     (if i < 0 then CHR ''-'' # decimal_of_nat (nat (- i)) else decimal_of_nat (nat i))"

text \<open>\<^verbatim>\<open>_getCriticalReason\<close>, lines 71 to 76: the first test that holds decides.\<close>

definition getCriticalReason :: "project \<Rightarrow> string" where
  "getCriticalReason p =
     (if overdueIssues p > 5 then decimal_of_int (overdueIssues p) @ '' overdue issues''
      else if blockedIssues p > 3 then decimal_of_int (blockedIssues p) @ '' blocked issues''
      else if calculateProjectHealth p < 50 then ''Overall health below 50%''
      else ''Multiple risk factors'')"

text \<open>
  \<^verbatim>\<open>Math.round\<close>: the nearest integer, a tie going up. \<^verbatim>\<open>calculateHealthScore\<close>
  applies it to the quotient of two integers. The quotient is computed in double precision
  by the code and exactly here; the two agree after rounding, because a quotient
  \<open>t / n\<close> that is not exactly half-way between two integers is at least \<open>1 / (2 n)\<close>
  away from the half-way point, which exceeds the rounding error of the division for
  every array length JavaScript allows (\<open>n < 2^32\<close>, \<open>t \<le> 100 n\<close>).
\<close>

definition Math_round :: "rat \<Rightarrow> int" where
  "Math_round x = \<lfloor>x + 1 / 2\<rfloor>"

text \<open>\<^verbatim>\<open>calculateHealthScore\<close>, lines 12 to 20.\<close>

definition calculateHealthScore :: "ExecutivePortfolio \<Rightarrow> int" where
  "calculateHealthScore pf =
     (if length (projects pf) = 0 then 0
      else
        let totalScore =
              foldl (\<lambda>sum project. sum + calculateProjectHealth project) 0 (projects pf)
        in Math_round (of_int totalScore / of_nat (length (projects pf))))"

text \<open>\<^verbatim>\<open>getCriticalAlerts\<close>, lines 22 to 31.\<close>

record alert =
  projectKey :: string
  projectName :: string
  alertLevel :: string
  reason :: string

definition getCriticalAlerts :: "ExecutivePortfolio \<Rightarrow> alert list" where
  "getCriticalAlerts pf =
     map (\<lambda>project.
            \<lparr> projectKey = key project,
              projectName = name project,
              alertLevel = ''CRITICAL'',
              reason = getCriticalReason project \<rparr>)
         (filter (\<lambda>project. isProjectCritical project) (projects pf))"

text \<open>
  \<^verbatim>\<open>getPortfolioSummary\<close>, lines 33 to 41. Its \<^verbatim>\<open>criticalAlerts\<close> field is the number
  of alerts; the list itself is what \<open>getCriticalAlerts\<close> returns.
\<close>

record summary =
  totalProjects :: nat
  healthScore :: int
  criticalAlerts :: nat
  onTrackProjects :: nat
  atRiskProjects :: nat

definition getPortfolioSummary :: "ExecutivePortfolio \<Rightarrow> summary" where
  "getPortfolioSummary pf =
     \<lparr> totalProjects = length (projects pf),
       healthScore = calculateHealthScore pf,
       criticalAlerts = length (getCriticalAlerts pf),
       onTrackProjects = length (filter (\<lambda>p. calculateProjectHealth p \<ge> 70) (projects pf)),
       atRiskProjects = length (filter (\<lambda>p. calculateProjectHealth p < 70) (projects pf)) \<rparr>"

section \<open>AuthorizationService: values, the store and the collaborators\<close>

text \<open>
  Source: the \<^verbatim>\<open>AuthorizationService\<close> class (\<^verbatim>\<open>src/unnamed/part_002\<close>, lines 247 to 490).

  The service works on dynamically typed data, so the model has JavaScript values.
  Objects and arrays that the service creates or writes to live in a store: a value of
  object type is a reference \<open>Ref a\<close> to the cell at address \<open>a\<close>, an allocation appends a
  cell, and an assignment or a \<^verbatim>\<open>delete\<close> replaces the cell at an address. Numbers are the
  finite ones (rationals); \<^verbatim>\<open>NaN\<close> and the infinities are left out, no operation of the
  service computes with a number.
\<close>

type_synonym addr = nat

datatype val = Undefined | Null | Bool bool | Number rat | Str string | Ref addr

datatype cell = Obj "(string \<times> val) list" | Arr "val list"

type_synonym heap = "cell list"

text \<open>
  Plain data: what a JSON text denotes. The permission list that the user adapter
  resolves with is plain data (it is only read, and never compared by identity with
  anything but the freshly cloned portfolio), and so is the text between
  \<^verbatim>\<open>JSON.stringify\<close> and \<^verbatim>\<open>JSON.parse\<close>. Where such a value may be \<^verbatim>\<open>undefined\<close> (a
  missing property, the result of serialising \<^verbatim>\<open>undefined\<close>) it is a \<open>json option\<close>,
  \<open>None\<close> for \<^verbatim>\<open>undefined\<close>.
\<close>

datatype json =
    JNull | JBool bool | JNumber rat | JString string
  | JArray "json list" | JObject "(string \<times> json) list"

text \<open>
  What a \<^verbatim>\<open>throw\<close> or a rejected promise carries. The run-time system throws
  \<^verbatim>\<open>Error\<close> objects with a message (\<^verbatim>\<open>TypeError\<close>, \<^verbatim>\<open>SyntaxError\<close>). A collaborator
  may reject with an \<^verbatim>\<open>Error\<close> object (\<open>Rejected\<close>, with its message) or with any other
  value (\<open>Thrown\<close>), \<^verbatim>\<open>undefined\<close> and \<^verbatim>\<open>null\<close> among them.
\<close>

datatype error = TypeError string | SyntaxError string | Rejected string | Thrown val

definition ebind :: "error + 'a \<Rightarrow> ('a \<Rightarrow> error + 'b) \<Rightarrow> error + 'b" where
  "ebind r f = (case r of Inl e \<Rightarrow> Inl e | Inr x \<Rightarrow> f x)"

text \<open>
  The object literal handed to the audit service, and the calls the service makes on
  its two collaborators, in order. \<^verbatim>\<open>forgeUserAdapter.getUserPermissions\<close> resolves with
  plain data or rejects; \<^verbatim>\<open>auditService.logAuthorizationEvent\<close> resolves (\<open>None\<close>) or
  rejects.
\<close>

type_synonym auditData = "(string \<times> val) list"

datatype call = Call_getUserPermissions val | Call_logAuthorizationEvent auditData

record services =
  forgeUserAdapter_getUserPermissions :: "val \<Rightarrow> error + json option"
  auditService_logAuthorizationEvent :: "auditData \<Rightarrow> error option"

record world =
  store :: heap
  calls :: "call list"

text \<open>
  A method body: it runs in a world, returns a value or throws, and leaves a world.
  \<open>js_try_catch\<close> is \<^verbatim>\<open>try { ... } catch (error) { ... }\<close>: the handler runs in the world
  the failed body left behind.
\<close>

type_synonym 'a js = "world \<Rightarrow> (error + 'a) \<times> world"

definition js_return :: "'a \<Rightarrow> 'a js" where
  "js_return x w = (Inr x, w)"

definition js_bind :: "'a js \<Rightarrow> ('a \<Rightarrow> 'b js) \<Rightarrow> 'b js" where
  "js_bind m f w = (case m w of (Inl e, w') \<Rightarrow> (Inl e, w') | (Inr x, w') \<Rightarrow> f x w')"

definition js_try_catch :: "'a js \<Rightarrow> (error \<Rightarrow> 'a js) \<Rightarrow> 'a js" where
  "js_try_catch body handler w =
     (case body w of (Inl e, w') \<Rightarrow> handler e w' | (Inr x, w') \<Rightarrow> (Inr x, w'))"

definition js_lift :: "error + 'a \<Rightarrow> 'a js" where
  "js_lift r w = (r, w)"

definition js_read :: "(heap \<Rightarrow> error + 'a) \<Rightarrow> 'a js" where
  "js_read f w = (f (store w), w)"

definition js_alloc :: "cell \<Rightarrow> val js" where
  "js_alloc c w = (Inr (Ref (length (store w))), w\<lparr>store := store w @ [c]\<rparr>)"

subsection \<open>Reading values\<close>

definition cell_at :: "heap \<Rightarrow> addr \<Rightarrow> cell option" where
  "cell_at h a = (if a < length h then Some (h ! a) else None)"

definition own_property :: "(string \<times> val) list \<Rightarrow> string \<Rightarrow> val" where
  "own_property ps k = (case map_of ps k of None \<Rightarrow> Undefined | Some v \<Rightarrow> v)"

text \<open>
  \<^verbatim>\<open>v.k\<close> for the property names the service reads (\<^verbatim>\<open>projects\<close>, \<^verbatim>\<open>businessUnit\<close>,
  \<^verbatim>\<open>message\<close>): a \<^verbatim>\<open>TypeError\<close> on \<^verbatim>\<open>undefined\<close> and \<^verbatim>\<open>null\<close>, the own property of an
  object, and \<^verbatim>\<open>undefined\<close> on arrays, strings, numbers and booleans, which define none
  of these names.
\<close>

definition get_prop :: "heap \<Rightarrow> val \<Rightarrow> string \<Rightarrow> error + val" where
  "get_prop h v k =
     (case v of
        Undefined \<Rightarrow> Inl (TypeError ''Cannot read properties of undefined'')
      | Null \<Rightarrow> Inl (TypeError ''Cannot read properties of null'')
      | Ref a \<Rightarrow> (case cell_at h a of Some (Obj ps) \<Rightarrow> Inr (own_property ps k) | _ \<Rightarrow> Inr Undefined)
      | _ \<Rightarrow> Inr Undefined)"

text \<open>
  \<^verbatim>\<open>error.message\<close>, as the two \<^verbatim>\<open>catch\<close> blocks evaluate it: the message of an
  \<^verbatim>\<open>Error\<close> object, and a property read on any other caught value, which is itself a
  \<^verbatim>\<open>TypeError\<close> when that value is \<^verbatim>\<open>undefined\<close> or \<^verbatim>\<open>null\<close>.
\<close>

definition error_message :: "heap \<Rightarrow> error \<Rightarrow> error + val" where
  "error_message h e =
     (case e of
        TypeError m \<Rightarrow> Inr (Str m)
      | SyntaxError m \<Rightarrow> Inr (Str m)
      | Rejected m \<Rightarrow> Inr (Str m)
      | Thrown v \<Rightarrow> get_prop h v ''message'')"

text \<open>The same on plain data (\<^verbatim>\<open>permission.type\<close>, \<^verbatim>\<open>permission.scope\<close>).\<close>

definition json_get :: "json option \<Rightarrow> string \<Rightarrow> error + json option" where
  "json_get v k =
     (case v of
        None \<Rightarrow> Inl (TypeError ''Cannot read properties of undefined'')
      | Some JNull \<Rightarrow> Inl (TypeError ''Cannot read properties of null'')
      | Some (JObject ps) \<Rightarrow> Inr (map_of ps k)
      | Some _ \<Rightarrow> Inr None)"

text \<open>
  The receiver of \<^verbatim>\<open>.some\<close>, \<^verbatim>\<open>.filter\<close>, \<^verbatim>\<open>.map\<close>: its elements when it is an array, a
  \<^verbatim>\<open>TypeError\<close> otherwise (the method is missing, or the receiver is \<^verbatim>\<open>undefined\<close> or
  \<^verbatim>\<open>null\<close>).
\<close>

definition json_array :: "json option \<Rightarrow> error + json list" where
  "json_array v =
     (case v of
        None \<Rightarrow> Inl (TypeError ''Cannot read properties of undefined'')
      | Some JNull \<Rightarrow> Inl (TypeError ''Cannot read properties of null'')
      | Some (JArray xs) \<Rightarrow> Inr xs
      | Some _ \<Rightarrow> Inl (TypeError ''is not a function''))"

definition array_elems :: "heap \<Rightarrow> val \<Rightarrow> error + val list" where
  "array_elems h v =
     (case v of
        Undefined \<Rightarrow> Inl (TypeError ''Cannot read properties of undefined'')
      | Null \<Rightarrow> Inl (TypeError ''Cannot read properties of null'')
      | Ref a \<Rightarrow> (case cell_at h a of Some (Arr xs) \<Rightarrow> Inr xs
                  | _ \<Rightarrow> Inl (TypeError ''is not a function''))
      | _ \<Rightarrow> Inl (TypeError ''is not a function''))"

text \<open>
  \<^verbatim>\<open>Array.prototype.some\<close>, \<^verbatim>\<open>filter\<close> and \<^verbatim>\<open>reduce\<close> with a callback that may throw.
  \<open>Array_some\<close> stops at the first element the callback accepts.
\<close>

fun Array_some :: "('a \<Rightarrow> error + bool) \<Rightarrow> 'a list \<Rightarrow> error + bool" where
  "Array_some f [] = Inr False"
| "Array_some f (x # xs) =
     (case f x of Inl e \<Rightarrow> Inl e | Inr b \<Rightarrow> if b then Inr True else Array_some f xs)"

fun Array_filter :: "('a \<Rightarrow> error + bool) \<Rightarrow> 'a list \<Rightarrow> error + 'a list" where
  "Array_filter f [] = Inr []"
| "Array_filter f (x # xs) =
     (case f x of
        Inl e \<Rightarrow> Inl e
      | Inr b \<Rightarrow>
          (case Array_filter f xs of
             Inl e \<Rightarrow> Inl e
           | Inr ys \<Rightarrow> Inr (if b then x # ys else ys)))"

fun Array_reduce :: "('b \<Rightarrow> 'a \<Rightarrow> error + 'b) \<Rightarrow> 'b \<Rightarrow> 'a list \<Rightarrow> error + 'b" where
  "Array_reduce f acc [] = Inr acc"
| "Array_reduce f acc (x # xs) =
     (case f acc x of Inl e \<Rightarrow> Inl e | Inr acc' \<Rightarrow> Array_reduce f acc' xs)"

text \<open>\<^verbatim>\<open>Array.prototype.map\<close> with a callback that allocates.\<close>

fun Array_map :: "('a \<Rightarrow> 'b js) \<Rightarrow> 'a list \<Rightarrow> 'b list js" where
  "Array_map f [] = js_return []"
| "Array_map f (x # xs) =
     js_bind (f x) (\<lambda>y. js_bind (Array_map f xs) (\<lambda>ys. js_return (y # ys)))"

text \<open>Truthiness (\<^verbatim>\<open>!authToken\<close>, \<^verbatim>\<open>if (filteredData.projects)\<close>).\<close>

fun truthy :: "val \<Rightarrow> bool" where
  "truthy Undefined = False"
| "truthy Null = False"
| "truthy (Bool b) = b"
| "truthy (Number n) = (n \<noteq> 0)"
| "truthy (Str s) = (s \<noteq> [])"
| "truthy (Ref a) = True"

definition String_startsWith :: "string \<Rightarrow> string \<Rightarrow> bool" where
  "String_startsWith s p \<longleftrightarrow> take (length p) s = p"

text \<open>\<^verbatim>\<open>String.prototype.includes\<close>: the argument occurs as a substring.\<close>

fun String_includes :: "string \<Rightarrow> string \<Rightarrow> bool" where
  "String_includes [] sub \<longleftrightarrow> sub = []"
| "String_includes (c # cs) sub \<longleftrightarrow> String_startsWith (c # cs) sub \<or> String_includes cs sub"

subsection \<open>The permission checks\<close>

text \<open>\<^verbatim>\<open>_isValidExecutiveUserId\<close>, lines 383 to 385.\<close>

definition isValidExecutiveUserId :: "val \<Rightarrow> bool" where
  "isValidExecutiveUserId userId =
     (case userId of Str s \<Rightarrow> String_startsWith s ''exec-'' | _ \<Rightarrow> False)"

text \<open>The callback \<^verbatim>\<open>p => p.type === permissionType\<close>.\<close>

definition has_type :: "string \<Rightarrow> json \<Rightarrow> error + bool" where
  "has_type permissionType p =
     ebind (json_get (Some p) ''type'') (\<lambda>ty. Inr (ty = Some (JString permissionType)))"

text \<open>\<^verbatim>\<open>_hasPermissionType\<close>, lines 394 to 396.\<close>

definition hasPermissionType :: "json option \<Rightarrow> string \<Rightarrow> error + bool" where
  "hasPermissionType permissions permissionType =
     ebind (json_array permissions) (\<lambda>ps. Array_some (has_type permissionType) ps)"

text \<open>
  \<^verbatim>\<open>permission.scope.includes(s)\<close> for a string \<open>s\<close>: membership when the scope is an
  array, a substring test when it is a string, a \<^verbatim>\<open>TypeError\<close> otherwise.
\<close>

definition scope_includes :: "json option \<Rightarrow> string \<Rightarrow> error + bool" where
  "scope_includes scope s =
     (case scope of
        None \<Rightarrow> Inl (TypeError ''Cannot read properties of undefined'')
      | Some JNull \<Rightarrow> Inl (TypeError ''Cannot read properties of null'')
      | Some (JArray xs) \<Rightarrow> Inr (JString s \<in> set xs)
      | Some (JString t) \<Rightarrow> Inr (String_includes t s)
      | Some _ \<Rightarrow> Inl (TypeError ''is not a function''))"

text \<open>\<^verbatim>\<open>_hasBusinessUnitAccess\<close>, lines 406 to 413.\<close>

definition hasBusinessUnitAccess :: "json option \<Rightarrow> string \<Rightarrow> string \<Rightarrow> error + bool" where
  "hasBusinessUnitAccess permissions permissionType businessUnit =
     ebind (json_array permissions) (\<lambda>ps.
     ebind (Array_filter (has_type permissionType) ps) (\<lambda>relevantPermissions.
     Array_some
       (\<lambda>permission.
          ebind (json_get (Some permission) ''scope'') (\<lambda>scope.
          ebind (scope_includes scope businessUnit) (\<lambda>found.
          if found then Inr True else scope_includes scope ''All_Units'')))
       relevantPermissions))"

subsection \<open>authorizePortfolioAccess\<close>

text \<open>
  \<^verbatim>\<open>_logAuthorizationEvent\<close>, lines 478 to 490. The \<^verbatim>\<open>timestamp\<close> property
  (\<^verbatim>\<open>new Date()\<close>) is wall-clock time and is left out of the literal.
\<close>

definition logAuthorizationEvent ::
  "services \<Rightarrow> val \<Rightarrow> string \<Rightarrow> string \<Rightarrow> (string \<times> val) list \<Rightarrow> unit js" where
  "logAuthorizationEvent sv userId businessUnit result additionalData w =
     (let auditData =
            [(''userId'', userId), (''resource'', Str ''PORTFOLIO_DATA''),
             (''action'', Str ''READ''), (''businessUnit'', Str businessUnit),
             (''result'', Str result)] @ additionalData
      in ((case auditService_logAuthorizationEvent sv auditData of
             None \<Rightarrow> Inr () | Some e \<Rightarrow> Inl e),
          w\<lparr>calls := calls w @ [Call_logAuthorizationEvent auditData]\<rparr>))"

text \<open>\<^verbatim>\<open>await this.forgeUserAdapter.getUserPermissions(executiveUserId)\<close>.\<close>

definition getUserPermissions :: "services \<Rightarrow> val \<Rightarrow> json option js" where
  "getUserPermissions sv executiveUserId w =
     (forgeUserAdapter_getUserPermissions sv executiveUserId,
      w\<lparr>calls := calls w @ [Call_getUserPermissions executiveUserId]\<rparr>)"

text \<open>
  \<^verbatim>\<open>authorizePortfolioAccess\<close>, lines 279 to 334. In the \<^verbatim>\<open>catch\<close> block the argument
  \<^verbatim>\<open>{ reason: error.message }\<close> is evaluated before the audit call is made.
\<close>

definition authorizePortfolioAccess :: "services \<Rightarrow> val \<Rightarrow> string \<Rightarrow> val \<Rightarrow> bool js" where
  "authorizePortfolioAccess sv executiveUserId businessUnit authToken =
     js_try_catch
       (if \<not> truthy authToken then
          js_bind (logAuthorizationEvent sv executiveUserId businessUnit ''DENIED''
                     [(''reason'', Str ''Invalid authentication token'')])
            (\<lambda>_. js_return False)
        else if \<not> isValidExecutiveUserId executiveUserId then
          js_bind (logAuthorizationEvent sv executiveUserId businessUnit ''DENIED''
                     [(''reason'', Str ''Invalid executive user ID format'')])
            (\<lambda>_. js_return False)
        else
          js_bind (getUserPermissions sv executiveUserId) (\<lambda>userPermissions.
          js_bind (js_lift (hasPermissionType userPermissions ''PORTFOLIO_VIEW''))
            (\<lambda>hasPortfolioPermission.
          if \<not> hasPortfolioPermission then
            js_bind (logAuthorizationEvent sv executiveUserId businessUnit ''DENIED''
                       [(''reason'', Str ''No portfolio view permissions'')])
              (\<lambda>_. js_return False)
          else
            js_bind (js_lift (hasBusinessUnitAccess userPermissions ''PORTFOLIO_VIEW''
                                businessUnit))
              (\<lambda>hasAccess.
            if \<not> hasAccess then
              js_bind (logAuthorizationEvent sv executiveUserId businessUnit ''DENIED''
                         [(''reason'', Str ''Insufficient permissions for business unit'')])
                (\<lambda>_. js_return False)
            else
              js_bind (logAuthorizationEvent sv executiveUserId businessUnit ''AUTHORIZED'' [])
                (\<lambda>_. js_return True)))))
       (\<lambda>error.
          js_bind (js_read (\<lambda>h. error_message h error)) (\<lambda>reason.
          js_bind (logAuthorizationEvent sv executiveUserId businessUnit ''ERROR''
                     [(''reason'', reason)])
            (\<lambda>_. js_return False)))"

subsection \<open>JSON.stringify and JSON.parse\<close>

text \<open>
  \<^verbatim>\<open>JSON.stringify\<close> walks the value with the stack of the objects it is inside of, and
  throws a \<^verbatim>\<open>TypeError\<close> on an object that is already on the stack (a circular
  structure). \<^verbatim>\<open>undefined\<close> has no JSON text: it is \<^verbatim>\<open>null\<close> as an array element and
  the property is dropped in an object. The walk ends because each object entered is a
  cell of the store that was not on the stack before.
\<close>

lemma unvisited_decreases:
  assumes "cell_at h a = Some c" and "a \<notin> set st"
  shows "card ({..<length h} - insert a (set st)) < card ({..<length h} - set st)"
proof -
  have "a < length h" using assms(1) by (simp add: cell_at_def split: if_splits)
  then have "{..<length h} - insert a (set st) \<subset> {..<length h} - set st"
    using assms(2) by auto
  then show ?thesis by (intro psubset_card_mono) auto
qed

function (sequential)
  stringify :: "heap \<Rightarrow> addr list \<Rightarrow> val \<Rightarrow> error + json option" and
  stringify_elems :: "heap \<Rightarrow> addr list \<Rightarrow> val list \<Rightarrow> error + json list" and
  stringify_props :: "heap \<Rightarrow> addr list \<Rightarrow> (string \<times> val) list \<Rightarrow> error + (string \<times> json) list"
where
  "stringify h st Undefined = Inr None"
| "stringify h st Null = Inr (Some JNull)"
| "stringify h st (Bool b) = Inr (Some (JBool b))"
| "stringify h st (Number n) = Inr (Some (JNumber n))"
| "stringify h st (Str s) = Inr (Some (JString s))"
| "stringify h st (Ref a) =
     (if a \<in> set st then Inl (TypeError ''Converting circular structure to JSON'')
      else
        case cell_at h a of
          None \<Rightarrow> Inr None
        | Some (Arr xs) \<Rightarrow>
            (case stringify_elems h (a # st) xs of
               Inl e \<Rightarrow> Inl e | Inr js \<Rightarrow> Inr (Some (JArray js)))
        | Some (Obj ps) \<Rightarrow>
            (case stringify_props h (a # st) ps of
               Inl e \<Rightarrow> Inl e | Inr qs \<Rightarrow> Inr (Some (JObject qs))))"
| "stringify_elems h st [] = Inr []"
| "stringify_elems h st (x # xs) =
     (case stringify h st x of
        Inl e \<Rightarrow> Inl e
      | Inr j \<Rightarrow>
          (case stringify_elems h st xs of
             Inl e \<Rightarrow> Inl e
           | Inr js \<Rightarrow> Inr ((case j of None \<Rightarrow> JNull | Some j' \<Rightarrow> j') # js)))"
| "stringify_props h st [] = Inr []"
| "stringify_props h st ((k, x) # ps) =
     (case stringify h st x of
        Inl e \<Rightarrow> Inl e
      | Inr j \<Rightarrow>
          (case stringify_props h st ps of
             Inl e \<Rightarrow> Inl e
           | Inr qs \<Rightarrow> Inr (case j of None \<Rightarrow> qs | Some j' \<Rightarrow> (k, j') # qs)))"
  by pat_completeness auto

termination
proof (relation
    "measures
       [\<lambda>x. case x of
               Inl (h, st, v) \<Rightarrow> card ({..<length h} - set st)
             | Inr (Inl (h, st, vs)) \<Rightarrow> card ({..<length h} - set st)
             | Inr (Inr (h, st, ps)) \<Rightarrow> card ({..<length h} - set st),
        \<lambda>x. case x of
               Inl (h, st, v) \<Rightarrow> 0
             | Inr (Inl (h, st, vs)) \<Rightarrow> Suc (length vs)
             | Inr (Inr (h, st, ps)) \<Rightarrow> Suc (length ps)]")
qed (auto simp: unvisited_decreases)

text \<open>\<^verbatim>\<open>JSON.stringify(value)\<close>: the text, or \<^verbatim>\<open>undefined\<close> (\<open>None\<close>).\<close>

definition JSON_stringify :: "heap \<Rightarrow> val \<Rightarrow> error + json option" where
  "JSON_stringify h v = stringify h [] v"

text \<open>
  \<^verbatim>\<open>JSON.parse\<close> builds the value of a text out of new objects and arrays: every array
  and object of the text is allocated, the children before the parent.
\<close>

fun
  parse :: "json \<Rightarrow> heap \<Rightarrow> val \<times> heap" and
  parse_elems :: "json list \<Rightarrow> heap \<Rightarrow> val list \<times> heap" and
  parse_props :: "(string \<times> json) list \<Rightarrow> heap \<Rightarrow> (string \<times> val) list \<times> heap"
where
  "parse JNull h = (Null, h)"
| "parse (JBool b) h = (Bool b, h)"
| "parse (JNumber n) h = (Number n, h)"
| "parse (JString s) h = (Str s, h)"
| "parse (JArray js) h =
     (case parse_elems js h of (vs, h') \<Rightarrow> (Ref (length h'), h' @ [Arr vs]))"
| "parse (JObject ps) h =
     (case parse_props ps h of (qs, h') \<Rightarrow> (Ref (length h'), h' @ [Obj qs]))"
| "parse_elems [] h = ([], h)"
| "parse_elems (j # js) h =
     (case parse j h of (v, h1) \<Rightarrow>
        (case parse_elems js h1 of (vs, h2) \<Rightarrow> (v # vs, h2)))"
| "parse_props [] h = ([], h)"
| "parse_props ((k, j) # ps) h =
     (case parse j h of (v, h1) \<Rightarrow>
        (case parse_props ps h1 of (qs, h2) \<Rightarrow> ((k, v) # qs, h2)))"

text \<open>\<^verbatim>\<open>JSON.parse(text)\<close>; \<^verbatim>\<open>JSON.parse(undefined)\<close> is a \<^verbatim>\<open>SyntaxError\<close>.\<close>

definition JSON_parse :: "json option \<Rightarrow> val js" where
  "JSON_parse text w =
     (case text of
        None \<Rightarrow> (Inl (SyntaxError ''\"undefined\" is not valid JSON''), w)
      | Some j \<Rightarrow> (case parse j (store w) of (v, h') \<Rightarrow> (Inr v, w\<lparr>store := h'\<rparr>)))"

subsection \<open>Writing to objects\<close>

fun assign :: "string \<Rightarrow> val \<Rightarrow> (string \<times> val) list \<Rightarrow> (string \<times> val) list" where
  "assign k v [] = [(k, v)]"
| "assign k v ((k', v') # ps) = (if k' = k then (k, v) # ps else (k', v') # assign k v ps)"

text \<open>
  \<^verbatim>\<open>obj.k = v\<close>. The service assigns only to \<^verbatim>\<open>filteredData.projects\<close>, and only after
  it has read that property as truthy, which \<open>get_prop\<close> does for an object only. The
  other receivers are therefore not reached: \<^verbatim>\<open>undefined\<close>, \<^verbatim>\<open>null\<close> and (in strict
  mode) a primitive value throw; an array receiver is left as it is here.
\<close>

definition set_prop :: "val \<Rightarrow> string \<Rightarrow> val \<Rightarrow> unit js" where
  "set_prop obj k v w =
     (case obj of
        Ref a \<Rightarrow>
          (case cell_at (store w) a of
             Some (Obj ps) \<Rightarrow> (Inr (), w\<lparr>store := (store w)[a := Obj (assign k v ps)]\<rparr>)
           | _ \<Rightarrow> (Inr (), w))
      | _ \<Rightarrow> (Inl (TypeError ''Cannot set properties''), w))"

text \<open>
  \<^verbatim>\<open>delete obj.k\<close> for the property names the service deletes: the property leaves an
  object; an array and a primitive value have no such property and nothing happens.
\<close>

definition delete_prop :: "val \<Rightarrow> string \<Rightarrow> unit js" where
  "delete_prop obj k w =
     (case obj of
        Undefined \<Rightarrow> (Inl (TypeError ''Cannot convert undefined or null to object''), w)
      | Null \<Rightarrow> (Inl (TypeError ''Cannot convert undefined or null to object''), w)
      | Ref a \<Rightarrow>
          (case cell_at (store w) a of
             Some (Obj ps) \<Rightarrow>
               (Inr (), w\<lparr>store := (store w)[a := Obj (filter (\<lambda>(k', v'). k' \<noteq> k) ps)]\<rparr>)
           | _ \<Rightarrow> (Inr (), w))
      | _ \<Rightarrow> (Inr (), w))"

text \<open>
  The own enumerable properties that \<^verbatim>\<open>{ ...project }\<close> copies: those of an object, the
  indexed elements of an array and the indexed characters of a string, none of
  \<^verbatim>\<open>undefined\<close>, \<^verbatim>\<open>null\<close>, a number or a boolean.
\<close>

definition index_keys :: "nat \<Rightarrow> string list" where
  "index_keys n = map decimal_of_nat [0..<n]"

definition spread_props :: "heap \<Rightarrow> val \<Rightarrow> (string \<times> val) list" where
  "spread_props h v =
     (case v of
        Ref a \<Rightarrow>
          (case cell_at h a of
             Some (Obj ps) \<Rightarrow> ps
           | Some (Arr xs) \<Rightarrow> zip (index_keys (length xs)) xs
           | None \<Rightarrow> [])
      | Str s \<Rightarrow> zip (index_keys (length s)) (map (\<lambda>c. Str [c]) s)
      | _ \<Rightarrow> [])"

subsection \<open>The two filters\<close>

text \<open>
  \<^verbatim>\<open>units.concat(permission.scope)\<close>: the elements of an array argument, any other
  argument as one element.
\<close>

definition Array_concat :: "json option list \<Rightarrow> json option \<Rightarrow> json option list" where
  "Array_concat units x = units @ (case x of Some (JArray xs) \<Rightarrow> map Some xs | _ \<Rightarrow> [x])"

text \<open>
  \<^verbatim>\<open>authorizedUnits.includes(x)\<close> compares with SameValueZero: primitive values by
  value, and an object of the cloned portfolio is identical to no element of the
  permission list.
\<close>

fun same_value_zero :: "val \<Rightarrow> json option \<Rightarrow> bool" where
  "same_value_zero Undefined u \<longleftrightarrow> u = None"
| "same_value_zero Null u \<longleftrightarrow> u = Some JNull"
| "same_value_zero (Bool b) u \<longleftrightarrow> u = Some (JBool b)"
| "same_value_zero (Number n) u \<longleftrightarrow> u = Some (JNumber n)"
| "same_value_zero (Str s) u \<longleftrightarrow> u = Some (JString s)"
| "same_value_zero (Ref a) u \<longleftrightarrow> False"

definition Array_includes :: "json option list \<Rightarrow> val \<Rightarrow> bool" where
  "Array_includes units x = list_ex (same_value_zero x) units"

text \<open>\<^verbatim>\<open>_filterProjectsByBusinessUnit\<close>, lines 422 to 439.\<close>

definition filterProjectsByBusinessUnit :: "val \<Rightarrow> json option \<Rightarrow> val js" where
  "filterProjectsByBusinessUnit projects' permissions =
     js_bind (js_lift (ebind (json_array permissions)
                         (Array_filter (has_type ''PORTFOLIO_VIEW''))))
       (\<lambda>portfolioPermissions.
     if length portfolioPermissions = 0 then js_alloc (Arr [])
     else
       js_bind (js_lift (Array_reduce
                           (\<lambda>units permission.
                              ebind (json_get (Some permission) ''scope'')
                                (\<lambda>sc. Inr (Array_concat units sc)))
                           [] portfolioPermissions))
         (\<lambda>authorizedUnits.
       js_bind (js_read (\<lambda>h.
                  ebind (array_elems h projects')
                    (Array_filter
                       (\<lambda>project.
                          ebind (get_prop h project ''businessUnit'')
                            (\<lambda>unit. Inr (Array_includes authorizedUnits unit
                                         \<or> Array_includes authorizedUnits (Str ''All_Units'')))))))
         (\<lambda>kept.
       js_alloc (Arr kept))))"

text \<open>
  \<^verbatim>\<open>_filterSensitiveProjectData\<close>, lines 448 to 468. \<open>redact_project\<close> is the callback of
  \<^verbatim>\<open>projects.map\<close>, lines 452 to 467: a shallow copy of the project, from which the
  properties the caller may not see are deleted.
\<close>

definition redact_project :: "bool \<Rightarrow> bool \<Rightarrow> val \<Rightarrow> val js" where
  "redact_project hasFinancialAccess hasDetailedMetrics project =
     js_bind (js_read (\<lambda>h. Inr (spread_props h project))) (\<lambda>props.
     js_bind (js_alloc (Obj props)) (\<lambda>filteredProject.
     js_bind (if \<not> hasFinancialAccess then
                js_bind (delete_prop filteredProject ''budget'')
                  (\<lambda>_. delete_prop filteredProject ''revenue'')
              else js_return ()) (\<lambda>_.
     js_bind (if \<not> hasDetailedMetrics then
                delete_prop filteredProject ''detailedMetrics''
              else js_return ()) (\<lambda>_.
     js_return filteredProject))))"

definition filterSensitiveProjectData :: "val \<Rightarrow> json option \<Rightarrow> val js" where
  "filterSensitiveProjectData projects' permissions =
     js_bind (js_lift (hasPermissionType permissions ''FINANCIAL_DATA''))
       (\<lambda>hasFinancialAccess.
     js_bind (js_lift (hasPermissionType permissions ''DETAILED_METRICS''))
       (\<lambda>hasDetailedMetrics.
     js_bind (js_read (\<lambda>h. array_elems h projects')) (\<lambda>elems.
     js_bind (Array_map (redact_project hasFinancialAccess hasDetailedMetrics) elems)
       (\<lambda>copies.
     js_alloc (Arr copies)))))"

subsection \<open>filterPortfolioDataByPermissions\<close>

text \<open>
  Lines 342 to 375. \<open>filterPortfolioDataByPermissions_projects\<close> is the block guarded by
  \<^verbatim>\<open>if (filteredData.projects)\<close>, lines 351 to 360;
  \<open>filterPortfolioDataByPermissions_try\<close> is the body of the \<^verbatim>\<open>try\<close> block; the \<^verbatim>\<open>catch\<close>
  block evaluates \<^verbatim>\<open>error.message\<close>, hands it to \<^verbatim>\<open>console.error\<close> (the console is not
  part of the world) and returns the new object \<^verbatim>\<open>{ projects: [] }\<close>.
\<close>

definition filterPortfolioDataByPermissions_projects :: "val \<Rightarrow> json option \<Rightarrow> unit js" where
  "filterPortfolioDataByPermissions_projects filteredData userPermissions =
     js_bind (js_read (\<lambda>h. get_prop h filteredData ''projects'')) (\<lambda>unfiltered.
     js_bind (filterProjectsByBusinessUnit unfiltered userPermissions) (\<lambda>scoped.
     js_bind (set_prop filteredData ''projects'' scoped) (\<lambda>_.
     js_bind (js_read (\<lambda>h. get_prop h filteredData ''projects'')) (\<lambda>unredacted.
     js_bind (filterSensitiveProjectData unredacted userPermissions) (\<lambda>redacted.
     set_prop filteredData ''projects'' redacted)))))"

definition filterPortfolioDataByPermissions_try :: "services \<Rightarrow> val \<Rightarrow> val \<Rightarrow> val js" where
  "filterPortfolioDataByPermissions_try sv executiveUserId portfolioData =
     js_bind (getUserPermissions sv executiveUserId) (\<lambda>userPermissions.
     js_bind (js_read (\<lambda>h. JSON_stringify h portfolioData)) (\<lambda>text.
     js_bind (JSON_parse text) (\<lambda>filteredData.
     js_bind (js_read (\<lambda>h. get_prop h filteredData ''projects'')) (\<lambda>present.
     js_bind (if truthy present then
                filterPortfolioDataByPermissions_projects filteredData userPermissions
              else js_return ()) (\<lambda>_.
     js_bind (js_lift (hasPermissionType userPermissions ''FINANCIAL_DATA'')) (\<lambda>financial.
     js_bind (if \<not> financial then delete_prop filteredData ''financialData''
              else js_return ()) (\<lambda>_.
     js_return filteredData)))))))"

definition filterPortfolioDataByPermissions :: "services \<Rightarrow> val \<Rightarrow> val \<Rightarrow> val js" where
  "filterPortfolioDataByPermissions sv executiveUserId portfolioData =
     js_try_catch (filterPortfolioDataByPermissions_try sv executiveUserId portfolioData)
       (\<lambda>error.
          js_bind (js_read (\<lambda>h. error_message h error)) (\<lambda>logged.
          js_bind (js_alloc (Arr [])) (\<lambda>empty.
          js_alloc (Obj [(''projects'', empty)]))))"

subsection \<open>What a call leaves in the store\<close>

text \<open>
  The values a cell holds, the addresses a value gives access to, and the two facts
  about a store that the filter maintains from some address \<open>n\<close> on: a reference is
  not below \<open>n\<close> when it points to address \<open>n\<close> or a later one, and the store is closed above \<open>n\<close> when
  the cells from \<open>n\<close> on hold only such references.
\<close>

definition cell_vals :: "cell \<Rightarrow> val list" where
  "cell_vals c = (case c of Obj ps \<Rightarrow> map snd ps | Arr xs \<Rightarrow> xs)"

inductive reach :: "heap \<Rightarrow> val \<Rightarrow> addr \<Rightarrow> bool" for h :: heap and v :: val where
  reach_root: "v = Ref a \<Longrightarrow> reach h v a"
| reach_step: "reach h v a \<Longrightarrow> cell_at h a = Some c \<Longrightarrow> Ref b \<in> set (cell_vals c)
               \<Longrightarrow> reach h v b"

code_pred reach .

definition not_below :: "nat \<Rightarrow> val \<Rightarrow> bool" where
  "not_below n v = (case v of Ref a \<Rightarrow> n \<le> a | _ \<Rightarrow> True)"

definition closed_above :: "nat \<Rightarrow> heap \<Rightarrow> bool" where
  "closed_above n h \<longleftrightarrow>
     (\<forall>a. n \<le> a \<and> a < length h \<longrightarrow> (\<forall>v \<in> set (cell_vals (h ! a)). not_below n v))"

text \<open>
  \<open>keeps n m Q\<close>: run in a store that is closed above \<open>n\<close>, the method \<open>m\<close> leaves the
  cells below \<open>n\<close> as they are and the store closed above \<open>n\<close>, and a value it returns
  satisfies \<open>Q\<close>.
\<close>

definition keeps :: "nat \<Rightarrow> 'a js \<Rightarrow> ('a \<Rightarrow> bool) \<Rightarrow> bool" where
  "keeps n m Q \<longleftrightarrow>
     (\<forall>w. n \<le> length (store w) \<and> closed_above n (store w) \<longrightarrow>
        (case m w of (r, w') \<Rightarrow>
           n \<le> length (store w') \<and> take n (store w') = take n (store w)
           \<and> closed_above n (store w') \<and> (\<forall>x. r = Inr x \<longrightarrow> Q x)))"

text \<open>A reference is valid in a store when it points to one of its cells.\<close>

definition valid :: "heap \<Rightarrow> val \<Rightarrow> bool" where
  "valid h v = (case v of Ref a \<Rightarrow> a < length h | _ \<Rightarrow> True)"

text \<open>
  \<open>grown h h' xs\<close>: the store \<open>h'\<close> is \<open>h\<close> with new cells appended, and the new cells and
  the values \<open>xs\<close> hold only references to new cells of \<open>h'\<close>.
\<close>

definition grown :: "heap \<Rightarrow> heap \<Rightarrow> val list \<Rightarrow> bool" where
  "grown h h' xs \<longleftrightarrow>
     (\<exists>ex. h' = h @ ex
        \<and> (\<forall>c \<in> set ex. \<forall>x \<in> set (cell_vals c). not_below (length h) x \<and> valid h' x)
        \<and> (\<forall>x \<in> set xs. not_below (length h) x \<and> valid h' x))"

text \<open>
  What a method can throw. The errors of the run-time system are the \<^verbatim>\<open>TypeError\<close> and
  \<^verbatim>\<open>SyntaxError\<close> objects; \<open>throws_only m E\<close>: whatever the method \<open>m\<close> throws satisfies
  \<open>E\<close>.
\<close>

fun run_time_error :: "error \<Rightarrow> bool" where
  "run_time_error (TypeError m) = True"
| "run_time_error (SyntaxError m) = True"
| "run_time_error (Rejected m) = False"
| "run_time_error (Thrown v) = False"

definition throws_only :: "'a js \<Rightarrow> (error \<Rightarrow> bool) \<Rightarrow> bool" where
  "throws_only m E \<longleftrightarrow> (\<forall>w e w'. m w = (Inl e, w') \<longrightarrow> E e)"

section \<open>Reference formula and example inputs\<close>

text \<open>
  The health formula in the words of the specification (\<open>computeHealthScore\<close>): start at
  100, subtract the three capped deductions, clamp at 0.
\<close>

definition computeHealthScore_spec :: "int \<Rightarrow> int \<Rightarrow> int \<Rightarrow> int" where
  "computeHealthScore_spec overdueCount blockedCount highPriorityCount =
     max 0 (100 - min 30 (overdueCount * 5) - min 20 (blockedCount * 3)
                - min 25 (highPriorityCount * 2))"

text \<open>Concrete projects and portfolios on which the theorems are instantiated.\<close>

definition example_project :: "int \<Rightarrow> int \<Rightarrow> int \<Rightarrow> project" where
  "example_project overdue blocked highPriority =
     \<lparr> key = ''EFN'', name = ''Executive Flash News'',
       overdueIssues = overdue, blockedIssues = blocked,
       highPriorityIssues = highPriority \<rparr>"

definition example_portfolio :: "project list \<Rightarrow> ExecutivePortfolio" where
  "example_portfolio ps = new_ExecutivePortfolio ''exec-ceo-001'' (Some ps)"


text \<open>
  A permission as the specification's data model has it: a type tag and a list of
  business-unit names (among them, possibly, the sentinel \<open>All_Units\<close>), and the plain
  data the user adapter delivers for it.
\<close>

record permission =
  type :: string
  scope :: "string list"

definition permission_json :: "permission \<Rightarrow> json" where
  "permission_json p =
     JObject [(''type'', JString (type p)), (''scope'', JArray (map JString (scope p)))]"

definition permissions_json :: "permission list \<Rightarrow> json option" where
  "permissions_json ps = Some (JArray (map permission_json ps))"

definition granted :: "permission list \<Rightarrow> string \<Rightarrow> bool" where
  "granted ps businessUnit \<longleftrightarrow>
     list_ex (\<lambda>p. type p = ''PORTFOLIO_VIEW'' \<and>
                  (businessUnit \<in> set (scope p) \<or> ''All_Units'' \<in> set (scope p))) ps"

text \<open>Collaborators for the examples: an adapter with a fixed answer, an audit sink that
  records every event, and one that is unavailable.\<close>

definition example_services :: "error + json option \<Rightarrow> error option \<Rightarrow> services" where
  "example_services answer audit =
     \<lparr> forgeUserAdapter_getUserPermissions = (\<lambda>_. answer),
       auditService_logAuthorizationEvent = (\<lambda>_. audit) \<rparr>"

definition empty_world :: world where
  "empty_world = \<lparr> store = [], calls = [] \<rparr>"

definition sales_permissions :: "permission list" where
  "sales_permissions = [\<lparr> type = ''PORTFOLIO_VIEW'', scope = [''Sales'', ''Marketing''] \<rparr>]"

definition basic_permissions :: "permission list" where
  "basic_permissions = [\<lparr> type = ''BASIC_ACCESS'', scope = [''Corporate''] \<rparr>]"

definition ceo_permissions :: "permission list" where
  "ceo_permissions =
     [\<lparr> type = ''PORTFOLIO_VIEW'', scope = [''Corporate'', ''All_Units''] \<rparr>,
      \<lparr> type = ''FINANCIAL_DATA'', scope = [''Corporate''] \<rparr>,
      \<lparr> type = ''DETAILED_METRICS'', scope = [''Corporate''] \<rparr>]"

text \<open>
  A store holding a portfolio of two projects (a Sales project with financial data and
  detailed metrics at address 1, an Engineering project at address 2), the project array
  at address 3 and the portfolio object at address 5.
\<close>

definition example_store :: heap where
  "example_store =
     [Obj [(''velocity'', Number 85)],
      Obj [(''key'', Str ''CRM''), (''name'', Str ''Sales CRM''), (''businessUnit'', Str ''Sales''),
           (''overdueIssues'', Number 2), (''blockedIssues'', Number 1),
           (''highPriorityIssues'', Number 3),
           (''budget'', Number 1000000), (''revenue'', Number 2000000),
           (''detailedMetrics'', Ref 0)],
      Obj [(''key'', Str ''API''), (''name'', Str ''Platform API''),
           (''businessUnit'', Str ''Engineering''),
           (''overdueIssues'', Number 0), (''blockedIssues'', Number 0),
           (''highPriorityIssues'', Number 0)],
      Arr [Ref 1, Ref 2],
      Obj [(''totalBudget'', Number 5000000), (''totalRevenue'', Number 8000000)],
      Obj [(''projects'', Ref 3), (''financialData'', Ref 4)]]"

definition example_world :: world where
  "example_world = \<lparr> store = example_store, calls = [] \<rparr>"

text \<open>
  Field redaction in the words of the specification: \<open>budget\<close> and \<open>revenue\<close> are removed
  unless the caller holds a \<open>FINANCIAL_DATA\<close> permission, \<open>detailedMetrics\<close> unless the
  caller holds a \<open>DETAILED_METRICS\<close> permission.
\<close>

definition holds :: "permission list \<Rightarrow> string \<Rightarrow> bool" where
  "holds ps t = list_ex (\<lambda>p. type p = t) ps"

definition redact :: "permission list \<Rightarrow> (string \<times> val) list \<Rightarrow> (string \<times> val) list" where
  "redact ps props =
     filter (\<lambda>(k, v). (holds ps ''FINANCIAL_DATA'' \<or> (k \<noteq> ''budget'' \<and> k \<noteq> ''revenue''))
                     \<and> (holds ps ''DETAILED_METRICS'' \<or> k \<noteq> ''detailedMetrics''))
       props"

text \<open>
  Business-unit scoping in the words of the specification: the union of the scopes of
  the \<open>PORTFOLIO_VIEW\<close> permissions, and the test a project's business unit has to pass.
\<close>

definition authorized_units :: "permission list \<Rightarrow> string set" where
  "authorized_units ps = (\<Union>p \<in> set (filter (\<lambda>p. type p = ''PORTFOLIO_VIEW'') ps). set (scope p))"

definition unit_authorized :: "permission list \<Rightarrow> val \<Rightarrow> bool" where
  "unit_authorized ps unit \<longleftrightarrow>
     (\<exists>s \<in> authorized_units ps. unit = Str s) \<or> ''All_Units'' \<in> authorized_units ps"

section \<open>Properties of the health score\<close>

lemma calculateProjectHealth_score_bounds:
  "25 \<le> calculateProjectHealth_score p \<and> calculateProjectHealth_score p \<le> 100"
  by (simp add: calculateProjectHealth_score_def Let_def min_def)

lemma calculateProjectHealth_unclamped:
  "calculateProjectHealth p = calculateProjectHealth_score p"
  using calculateProjectHealth_score_bounds [of p]
  by (simp add: calculateProjectHealth_def)

lemma foldl_health_sum:
  "foldl (\<lambda>sum project. sum + calculateProjectHealth project) a ps
     = a + sum_list (map calculateProjectHealth ps)"
  by (induction ps arbitrary: a) simp_all

lemma Math_round_eq_round: "Math_round x = round x"
  by (simp add: Math_round_def round_def)

lemma Math_round_nearest: "\<bar>of_int (Math_round x) - x\<bar> \<le> 1 / 2"
  unfolding Math_round_eq_round by (rule of_int_round_abs_le)

text \<open>
  C3. \<open>calculateProjectHealth\<close> (the specification's \<open>computeHealthScore\<close>) is a total
  function: it is defined by a closed expression with no failing branch. For a project
  whose three issue counts are non-negative it equals the reference formula
  \<open>max(0, 100 - min(30, overdue*5) - min(20, blocked*3) - min(25, highPriority*2))\<close>,
  it lies in \<open>[0, 100]\<close>, and it is 100 when the three counts are zero.
\<close>

theorem calculateProjectHealth_reference_formula:
  assumes "0 \<le> overdueIssues p" and "0 \<le> blockedIssues p" and "0 \<le> highPriorityIssues p"
  shows "calculateProjectHealth p =
           computeHealthScore_spec (overdueIssues p) (blockedIssues p) (highPriorityIssues p)
         \<and> 0 \<le> calculateProjectHealth p \<and> calculateProjectHealth p \<le> 100
         \<and> (overdueIssues p = 0 \<and> blockedIssues p = 0 \<and> highPriorityIssues p = 0
              \<longrightarrow> calculateProjectHealth p = 100)"
  using assms
  by (simp add: calculateProjectHealth_def calculateProjectHealth_score_def
        computeHealthScore_spec_def Let_def min_def max_def)

theorem calculateProjectHealth_reference_formula_witness:
  "calculateProjectHealth (example_project 7 4 3) = computeHealthScore_spec 7 4 3
   \<and> calculateProjectHealth (example_project 7 4 3) = 52
   \<and> calculateProjectHealth (example_project 0 0 0) = 100"
  using calculateProjectHealth_reference_formula [of "example_project 7 4 3"]
        calculateProjectHealth_reference_formula [of "example_project 0 0 0"]
  by (simp add: example_project_def computeHealthScore_spec_def)

text \<open>
  C4. A project is critical exactly when its health is below 50, or it has more than 5
  overdue issues, or more than 3 blocked issues. A project with 7 overdue issues and
  no other issue has health 70 and is critical.
\<close>

theorem isProjectCritical_iff:
  "(isProjectCritical p \<longleftrightarrow>
      calculateProjectHealth p < 50 \<or> overdueIssues p > 5 \<or> blockedIssues p > 3)
   \<and> (overdueIssues p = 7 \<and> blockedIssues p = 0 \<and> highPriorityIssues p = 0
        \<longrightarrow> calculateProjectHealth p = 70 \<and> isProjectCritical p)"
  by (simp add: isProjectCritical_def calculateProjectHealth_def
        calculateProjectHealth_score_def Let_def)

theorem isProjectCritical_iff_witness:
  "calculateProjectHealth (example_project 7 0 0) = 70
   \<and> \<not> calculateProjectHealth (example_project 7 0 0) < 50
   \<and> isProjectCritical (example_project 7 0 0)
   \<and> \<not> isProjectCritical (example_project 5 3 0)"
  using isProjectCritical_iff [of "example_project 7 0 0"]
        isProjectCritical_iff [of "example_project 5 3 0"]
  by (simp add: example_project_def calculateProjectHealth_def
        calculateProjectHealth_score_def Let_def)

text \<open>
  C9. No combination of issue counts brings the health below 25: the deductions are
  capped at 30, 20 and 25, so the value of \<^verbatim>\<open>score\<close> at line 62 is at least 25 and
  \<^verbatim>\<open>Math.max(0, score)\<close> returns \<^verbatim>\<open>score\<close> itself.
\<close>

theorem calculateProjectHealth_at_least_25:
  "25 \<le> calculateProjectHealth p
   \<and> calculateProjectHealth p = calculateProjectHealth_score p"
  using calculateProjectHealth_score_bounds [of p]
  by (simp add: calculateProjectHealth_unclamped)

theorem calculateProjectHealth_at_least_25_witness:
  "calculateProjectHealth (example_project 1000 1000 1000) = 25
   \<and> calculateProjectHealth_score (example_project 1000 1000 1000) = 25
   \<and> calculateProjectHealth (example_project 6 7 13) = 25"
  using calculateProjectHealth_at_least_25 [of "example_project 1000 1000 1000"]
        calculateProjectHealth_at_least_25 [of "example_project 6 7 13"]
  by (simp add: example_project_def calculateProjectHealth_score_def Let_def)

text \<open>
  C8. \<open>getCriticalReason\<close> reports the first trigger that applies, in this order: more
  than 5 overdue issues (\<open>N overdue issues\<close>), more than 3 blocked issues
  (\<open>N blocked issues\<close>), health below 50 (the low-health message), and otherwise the
  multiple-risk-factors fallback.
\<close>

theorem getCriticalReason_first_match:
  "(overdueIssues p > 5 \<longrightarrow>
      getCriticalReason p = decimal_of_int (overdueIssues p) @ '' overdue issues'')
   \<and> (\<not> overdueIssues p > 5 \<and> blockedIssues p > 3 \<longrightarrow>
      getCriticalReason p = decimal_of_int (blockedIssues p) @ '' blocked issues'')
   \<and> (\<not> overdueIssues p > 5 \<and> \<not> blockedIssues p > 3 \<and> calculateProjectHealth p < 50 \<longrightarrow>
      getCriticalReason p = ''Overall health below 50%'')
   \<and> (\<not> overdueIssues p > 5 \<and> \<not> blockedIssues p > 3 \<and> \<not> calculateProjectHealth p < 50 \<longrightarrow>
      getCriticalReason p = ''Multiple risk factors'')"
  by (simp add: getCriticalReason_def)

lemma decimal_of_int_digit:
  "0 \<le> i \<Longrightarrow> i < 10 \<Longrightarrow> decimal_of_int i = [digit_char (nat i)]"
  by (simp add: decimal_of_int_def decimal_of_nat.simps)

theorem getCriticalReason_first_match_witness:
  "getCriticalReason (example_project 7 4 13) = ''7 overdue issues''
   \<and> calculateProjectHealth (example_project 7 4 13) < 50
   \<and> getCriticalReason (example_project 3 5 13) = ''5 blocked issues''
   \<and> calculateProjectHealth (example_project 3 5 13) < 50
   \<and> getCriticalReason (example_project 5 3 13) = ''Overall health below 50%''
   \<and> getCriticalReason (example_project 0 0 0) = ''Multiple risk factors''"
  using getCriticalReason_first_match [of "example_project 7 4 13"]
        getCriticalReason_first_match [of "example_project 3 5 13"]
        getCriticalReason_first_match [of "example_project 5 3 13"]
        getCriticalReason_first_match [of "example_project 0 0 0"]
  by (simp add: example_project_def calculateProjectHealth_def
        calculateProjectHealth_score_def Let_def decimal_of_int_digit digit_char_def)

text \<open>
  C7. The portfolio's health score is the arithmetic mean of the projects' health,
  rounded to the nearest integer (a tie going up, as \<open>round\<close> does). For an empty
  project list the score is 0 with no division taking place, there is no critical alert,
  and both the on-track and the at-risk count are 0.
\<close>

theorem calculateHealthScore_rounded_mean:
  "(projects pf \<noteq> [] \<longrightarrow>
      healthScore (getPortfolioSummary pf) =
        round (of_int (sum_list (map calculateProjectHealth (projects pf)))
                 / of_nat (length (projects pf)) :: rat)
      \<and> \<bar>of_int (healthScore (getPortfolioSummary pf))
           - (of_int (sum_list (map calculateProjectHealth (projects pf)))
                / of_nat (length (projects pf)) :: rat)\<bar> \<le> 1 / 2)
   \<and> (projects pf = [] \<longrightarrow>
      calculateHealthScore pf = 0
      \<and> healthScore (getPortfolioSummary pf) = 0
      \<and> getCriticalAlerts pf = []
      \<and> criticalAlerts (getPortfolioSummary pf) = 0
      \<and> onTrackProjects (getPortfolioSummary pf) = 0
      \<and> atRiskProjects (getPortfolioSummary pf) = 0)"
proof (intro conjI impI)
  assume ne: "projects pf \<noteq> []"
  let ?mean = "of_int (sum_list (map calculateProjectHealth (projects pf)))
                 / of_nat (length (projects pf)) :: rat"
  have hs: "healthScore (getPortfolioSummary pf) = Math_round ?mean"
    using ne
    by (simp add: getPortfolioSummary_def calculateHealthScore_def foldl_health_sum)
  show "healthScore (getPortfolioSummary pf) = round ?mean"
    by (simp only: hs Math_round_eq_round)
  show "\<bar>of_int (healthScore (getPortfolioSummary pf)) - ?mean\<bar> \<le> 1 / 2"
    by (simp only: hs Math_round_nearest)
qed (simp_all add: getPortfolioSummary_def calculateHealthScore_def getCriticalAlerts_def)

theorem calculateHealthScore_rounded_mean_witness:
  "healthScore (getPortfolioSummary
      (example_portfolio [example_project 0 0 0, example_project 1 0 0])) = 98
   \<and> healthScore (getPortfolioSummary
      (example_portfolio [example_project 0 0 0, example_project 1 0 0, example_project 1 0 0])) = 97
   \<and> healthScore (getPortfolioSummary (example_portfolio [])) = 0
   \<and> getCriticalAlerts (example_portfolio []) = []
   \<and> onTrackProjects (getPortfolioSummary (example_portfolio [])) = 0
   \<and> atRiskProjects (getPortfolioSummary (example_portfolio [])) = 0"
  using calculateHealthScore_rounded_mean
          [of "example_portfolio [example_project 0 0 0, example_project 1 0 0]"]
        calculateHealthScore_rounded_mean
          [of "example_portfolio [example_project 0 0 0, example_project 1 0 0, example_project 1 0 0]"]
        calculateHealthScore_rounded_mean [of "example_portfolio []"]
  by (simp add: example_portfolio_def new_ExecutivePortfolio_def example_project_def
        calculateProjectHealth_def calculateProjectHealth_score_def Let_def round_def floor_unique)
section \<open>What the service can throw\<close>

lemma ebind_simps [simp]: "ebind (Inr x) f = f x" "ebind (Inl e) f = Inl e"
  by (simp_all add: ebind_def)

lemma ebind_throws:
  assumes "ebind r f = Inl e"
  shows "r = Inl e \<or> (\<exists>x. r = Inr x \<and> f x = Inl e)"
  using assms by (cases r) simp_all

lemma Array_some_throws: "Array_some f xs = Inl e \<Longrightarrow> \<exists>x \<in> set xs. f x = Inl e"
  by (induction xs) (auto split: sum.splits if_splits)

lemma Array_filter_throws: "Array_filter f xs = Inl e \<Longrightarrow> \<exists>x \<in> set xs. f x = Inl e"
  by (induction xs) (auto split: sum.splits if_splits)

lemma Array_reduce_throws: "Array_reduce f acc xs = Inl e \<Longrightarrow> \<exists>a x. f a x = Inl e"
  by (induction xs arbitrary: acc) (auto split: sum.splits)

lemma get_prop_throws: "get_prop h v k = Inl e \<Longrightarrow> run_time_error e"
  by (auto simp: get_prop_def split: val.splits option.splits cell.splits)

lemma json_get_throws: "json_get v k = Inl e \<Longrightarrow> run_time_error e"
  by (auto simp: json_get_def split: option.splits json.splits)

lemma json_array_throws: "json_array v = Inl e \<Longrightarrow> run_time_error e"
  by (auto simp: json_array_def split: option.splits json.splits)

lemma array_elems_throws: "array_elems h v = Inl e \<Longrightarrow> run_time_error e"
  by (auto simp: array_elems_def split: val.splits option.splits cell.splits)

lemma scope_includes_throws: "scope_includes sc s = Inl e \<Longrightarrow> run_time_error e"
  by (auto simp: scope_includes_def split: option.splits json.splits)

lemma has_type_throws: "has_type t p = Inl e \<Longrightarrow> run_time_error e"
  unfolding has_type_def by (auto dest!: ebind_throws json_get_throws)

lemma hasPermissionType_throws: "hasPermissionType permissions t = Inl e \<Longrightarrow> run_time_error e"
  unfolding hasPermissionType_def
  by (auto dest!: ebind_throws Array_some_throws dest: json_array_throws has_type_throws)

lemma scope_test_throws:
  assumes "ebind (json_get (Some permission) ''scope'') (\<lambda>scope.
           ebind (scope_includes scope b) (\<lambda>found.
           if found then Inr True else scope_includes scope ''All_Units'')) = Inl e"
  shows "run_time_error e"
  using assms
  by (auto dest!: ebind_throws dest: json_get_throws scope_includes_throws split: if_splits)

lemma hasBusinessUnitAccess_throws:
  assumes "hasBusinessUnitAccess permissions t b = Inl e"
  shows "run_time_error e"
proof -
  from assms consider
      "json_array permissions = Inl e"
    | ps where "Array_filter (has_type t) ps = Inl e"
    | rel where "Array_some
       (\<lambda>permission.
          ebind (json_get (Some permission) ''scope'') (\<lambda>scope.
          ebind (scope_includes scope b) (\<lambda>found.
          if found then Inr True else scope_includes scope ''All_Units'')))
       rel = Inl e"
    unfolding hasBusinessUnitAccess_def by (auto dest!: ebind_throws)
  then show ?thesis
  proof cases
    case 1
    then show ?thesis by (rule json_array_throws)
  next
    case 2
    then show ?thesis by (auto dest!: Array_filter_throws dest: has_type_throws)
  next
    case 3
    then obtain x where "ebind (json_get (Some x) ''scope'') (\<lambda>scope.
          ebind (scope_includes scope b) (\<lambda>found.
          if found then Inr True else scope_includes scope ''All_Units'')) = Inl e"
      by (auto dest!: Array_some_throws)
    then show ?thesis by (rule scope_test_throws)
  qed
qed

lemma stringify_throws:
  "stringify h st v = Inl e \<Longrightarrow> run_time_error e"
  "stringify_elems h st vs = Inl e \<Longrightarrow> run_time_error e"
  "stringify_props h st ps = Inl e \<Longrightarrow> run_time_error e"
  by (induction h st v and h st vs and h st ps
        rule: stringify_stringify_elems_stringify_props.induct)
     (auto split: if_splits option.splits cell.splits sum.splits)

lemma JSON_stringify_throws: "JSON_stringify h v = Inl e \<Longrightarrow> run_time_error e"
  unfolding JSON_stringify_def by (rule stringify_throws)

lemma error_message_run_time: "run_time_error e \<Longrightarrow> \<exists>m. error_message h e = Inr (Str m)"
  by (cases e) (simp_all add: error_message_def)

lemma error_message_readable:
  "e \<noteq> Thrown Undefined \<Longrightarrow> e \<noteq> Thrown Null \<Longrightarrow> \<exists>m. error_message h e = Inr m"
  by (cases e)
     (auto simp: error_message_def get_prop_def split: val.splits option.splits cell.splits)

lemma error_message_unreadable:
  "error_message h e = Inl te \<Longrightarrow> e = Thrown Undefined \<or> e = Thrown Null"
  using error_message_readable [of e h] by auto

subsection \<open>Rules for \<open>throws_only\<close>\<close>

lemma throws_onlyD: "throws_only m E \<Longrightarrow> m w = (Inl e, w') \<Longrightarrow> E e"
  unfolding throws_only_def by blast

lemma throws_weaken: "throws_only m E \<Longrightarrow> (\<And>e. E e \<Longrightarrow> F e) \<Longrightarrow> throws_only m F"
  unfolding throws_only_def by blast

lemma throws_return: "throws_only (js_return x) E"
  by (simp add: throws_only_def js_return_def)

lemma throws_alloc: "throws_only (js_alloc c) E"
  by (simp add: throws_only_def js_alloc_def)

lemma throws_lift: "(\<And>e. r = Inl e \<Longrightarrow> E e) \<Longrightarrow> throws_only (js_lift r) E"
  by (simp add: throws_only_def js_lift_def)

lemma throws_read: "(\<And>h e. f h = Inl e \<Longrightarrow> E e) \<Longrightarrow> throws_only (js_read f) E"
  by (simp add: throws_only_def js_read_def)

lemma throws_bind:
  assumes "throws_only m E" and "\<And>x. throws_only (f x) E"
  shows "throws_only (js_bind m f) E"
  unfolding throws_only_def
proof (intro allI impI)
  fix w :: world and e and w' :: world
  assume run: "js_bind m f w = (Inl e, w')"
  obtain r1 w1 where m1: "m w = (r1, w1)" by (cases "m w")
  show "E e"
  proof (cases r1)
    case (Inl e1)
    with run m1 have "e1 = e" by (simp add: js_bind_def)
    with m1 Inl assms(1) show ?thesis by (auto dest: throws_onlyD)
  next
    case (Inr x)
    with run m1 have "f x w1 = (Inl e, w')" by (simp add: js_bind_def)
    with assms(2) show ?thesis by (rule throws_onlyD)
  qed
qed

lemma throws_if:
  "throws_only a E \<Longrightarrow> throws_only b E \<Longrightarrow> throws_only (if c then a else b) E"
  by simp

lemma throws_set_prop: "throws_only (set_prop obj k v) run_time_error"
  by (auto simp: throws_only_def set_prop_def split: val.splits option.splits cell.splits)

lemma throws_delete_prop: "throws_only (delete_prop obj k) run_time_error"
  by (auto simp: throws_only_def delete_prop_def split: val.splits option.splits cell.splits)

lemma throws_JSON_parse: "throws_only (JSON_parse jtext) run_time_error"
  by (auto simp: throws_only_def JSON_parse_def split: option.splits prod.splits)

lemma throws_Array_map:
  "(\<And>x. throws_only (f x) E) \<Longrightarrow> throws_only (Array_map f xs) E"
  by (induction xs) (simp_all add: throws_return throws_bind)

lemma throws_getUserPermissions:
  "throws_only (getUserPermissions sv u) (\<lambda>e. forgeUserAdapter_getUserPermissions sv u = Inl e)"
  by (simp add: throws_only_def getUserPermissions_def)

lemma throws_filterProjectsByBusinessUnit:
  "throws_only (filterProjectsByBusinessUnit pv permissions) run_time_error"
  unfolding filterProjectsByBusinessUnit_def
proof (intro throws_bind throws_if throws_alloc throws_lift throws_read)
  fix e
  assume "ebind (json_array permissions) (Array_filter (has_type ''PORTFOLIO_VIEW'')) = Inl e"
  then show "run_time_error e"
    by (auto dest!: ebind_throws Array_filter_throws dest: json_array_throws has_type_throws)
next
  fix x :: "json list" and e
  assume "Array_reduce
            (\<lambda>units permission.
               ebind (json_get (Some permission) ''scope'') (\<lambda>sc. Inr (Array_concat units sc)))
            [] x = Inl e"
  then show "run_time_error e"
    by (auto dest!: Array_reduce_throws ebind_throws dest: json_get_throws)
next
  fix x :: "json list" and xa :: "json option list" and h e
  assume "ebind (array_elems h pv)
            (Array_filter
               (\<lambda>project.
                  ebind (get_prop h project ''businessUnit'')
                    (\<lambda>unit. Inr (Array_includes xa unit
                                 \<or> Array_includes xa (Str ''All_Units''))))) = Inl e"
  then show "run_time_error e"
    by (auto dest!: ebind_throws Array_filter_throws dest: array_elems_throws get_prop_throws)
qed

lemma throws_redact_project:
  "throws_only (redact_project fin det project) run_time_error"
  unfolding redact_project_def
  by (intro throws_bind throws_if throws_alloc throws_read throws_return throws_delete_prop)
     simp

lemma throws_filterSensitiveProjectData:
  "throws_only (filterSensitiveProjectData pv permissions) run_time_error"
  unfolding filterSensitiveProjectData_def
  by (intro throws_bind throws_alloc throws_lift throws_read throws_Array_map
        throws_redact_project)
     (auto dest: hasPermissionType_throws array_elems_throws)

lemma throws_filterPortfolioDataByPermissions_projects:
  "throws_only (filterPortfolioDataByPermissions_projects filteredData userPermissions)
     run_time_error"
  unfolding filterPortfolioDataByPermissions_projects_def
  by (intro throws_bind throws_read throws_set_prop throws_filterProjectsByBusinessUnit
        throws_filterSensitiveProjectData)
     (auto dest: get_prop_throws)

text \<open>
  Inside the \<^verbatim>\<open>try\<close> block of \<open>filterPortfolioDataByPermissions\<close> only the permission
  lookup can throw something that is not an error of the run-time system.
\<close>

lemma throws_filterPortfolioDataByPermissions_try:
  "throws_only (filterPortfolioDataByPermissions_try sv executiveUserId portfolioData)
     (\<lambda>e. run_time_error e \<or> forgeUserAdapter_getUserPermissions sv executiveUserId = Inl e)"
  unfolding filterPortfolioDataByPermissions_try_def
proof (rule throws_bind)
  show "throws_only (getUserPermissions sv executiveUserId)
          (\<lambda>e. run_time_error e \<or> forgeUserAdapter_getUserPermissions sv executiveUserId = Inl e)"
    by (rule throws_weaken [OF throws_getUserPermissions]) simp
next
  fix userPermissions
  have "throws_only
          (js_bind (js_read (\<lambda>h. JSON_stringify h portfolioData)) (\<lambda>text.
           js_bind (JSON_parse text) (\<lambda>filteredData.
           js_bind (js_read (\<lambda>h. get_prop h filteredData ''projects'')) (\<lambda>present.
           js_bind (if truthy present then
                      filterPortfolioDataByPermissions_projects filteredData userPermissions
                    else js_return ()) (\<lambda>_.
           js_bind (js_lift (hasPermissionType userPermissions ''FINANCIAL_DATA'')) (\<lambda>financial.
           js_bind (if \<not> financial then delete_prop filteredData ''financialData''
                    else js_return ()) (\<lambda>_.
           js_return filteredData)))))))
          run_time_error"
    by (intro throws_bind throws_if throws_read throws_lift throws_return throws_JSON_parse
          throws_delete_prop throws_filterPortfolioDataByPermissions_projects)
       (auto dest: JSON_stringify_throws get_prop_throws hasPermissionType_throws)
  then show "throws_only
          (js_bind (js_read (\<lambda>h. JSON_stringify h portfolioData)) (\<lambda>text.
           js_bind (JSON_parse text) (\<lambda>filteredData.
           js_bind (js_read (\<lambda>h. get_prop h filteredData ''projects'')) (\<lambda>present.
           js_bind (if truthy present then
                      filterPortfolioDataByPermissions_projects filteredData userPermissions
                    else js_return ()) (\<lambda>_.
           js_bind (js_lift (hasPermissionType userPermissions ''FINANCIAL_DATA'')) (\<lambda>financial.
           js_bind (if \<not> financial then delete_prop filteredData ''financialData''
                    else js_return ()) (\<lambda>_.
           js_return filteredData)))))))
          (\<lambda>e. run_time_error e \<or> forgeUserAdapter_getUserPermissions sv executiveUserId = Inl e)"
    by (rule throws_weaken) simp
qed

section \<open>Properties of the authorization gate\<close>

lemma Array_some_True:
  "Array_some f xs = Inr True \<Longrightarrow> \<exists>x \<in> set xs. f x = Inr True"
  by (induction xs) (auto split: sum.splits if_splits)

lemma Array_some_total:
  "(\<And>x. x \<in> set xs \<Longrightarrow> f x = Inr (P x)) \<Longrightarrow> Array_some f xs = Inr (list_ex P xs)"
  by (induction xs) auto

lemma Array_filter_total:
  "(\<And>x. x \<in> set xs \<Longrightarrow> f x = Inr (P x)) \<Longrightarrow> Array_filter f xs = Inr (filter P xs)"
  by (induction xs) auto

lemma Array_filter_subset:
  "Array_filter f xs = Inr ys \<Longrightarrow> set ys \<subseteq> {x \<in> set xs. f x = Inr True}"
  by (induction xs arbitrary: ys) (auto split: sum.splits if_splits)

lemma has_type_permission_json [simp]:
  "has_type t (permission_json p) = Inr (type p = t)"
  by (simp add: has_type_def permission_json_def json_get_def)

lemma Array_some_has_type:
  "Array_some (has_type t) (map permission_json ps) = Inr (list_ex (\<lambda>p. type p = t) ps)"
  by (induction ps) simp_all

lemma hasPermissionType_permissions_json:
  "hasPermissionType (permissions_json ps) t = Inr (list_ex (\<lambda>p. type p = t) ps)"
  by (simp add: hasPermissionType_def permissions_json_def json_array_def
        Array_some_has_type)

lemma Array_filter_has_type:
  "Array_filter (has_type t) (map permission_json ps)
     = Inr (map permission_json (filter (\<lambda>p. type p = t) ps))"
  by (induction ps) simp_all

lemma scope_includes_JArray:
  "scope_includes (Some (JArray (map JString sc))) s = Inr (s \<in> set sc)"
  by (auto simp: scope_includes_def)

lemma Array_some_scope:
  "Array_some
     (\<lambda>permission.
        ebind (json_get (Some permission) ''scope'') (\<lambda>scope.
        ebind (scope_includes scope b) (\<lambda>found.
        if found then Inr True else scope_includes scope ''All_Units'')))
     (map permission_json ps)
   = Inr (list_ex (\<lambda>p. b \<in> set (scope p) \<or> ''All_Units'' \<in> set (scope p)) ps)"
  by (induction ps)
     (simp_all add: permission_json_def json_get_def scope_includes_JArray)

lemma hasBusinessUnitAccess_permissions_json:
  "hasBusinessUnitAccess (permissions_json ps) ''PORTFOLIO_VIEW'' b = Inr (granted ps b)"
  by (simp add: hasBusinessUnitAccess_def permissions_json_def json_array_def
        Array_filter_has_type Array_some_scope granted_def list_ex_iff)
     auto

lemma logAuthorizationEvent_accepted:
  "\<forall>d. auditService_logAuthorizationEvent sv d = None \<Longrightarrow>
   logAuthorizationEvent sv u b r a w =
     (Inr (), w\<lparr>calls := calls w @
        [Call_logAuthorizationEvent
           ([(''userId'', u), (''resource'', Str ''PORTFOLIO_DATA''),
             (''action'', Str ''READ''), (''businessUnit'', Str b),
             (''result'', Str r)] @ a)]\<rparr>)"
  by (simp add: logAuthorizationEvent_def)

lemma authorize_handler:
  assumes "\<forall>d. auditService_logAuthorizationEvent sv d = None"
      and "e \<noteq> Thrown Undefined" and "e \<noteq> Thrown Null"
  shows "fst (js_bind (js_read (\<lambda>h. error_message h e)) (\<lambda>reason.
              js_bind (logAuthorizationEvent sv u bu ''ERROR'' [(''reason'', reason)])
                (\<lambda>_. js_return False)) w) = Inr False"
proof -
  from error_message_readable [OF assms(2,3)] obtain m where
    "error_message (store w) e = Inr m" by blast
  then show ?thesis
    by (simp add: js_bind_def js_read_def js_return_def logAuthorizationEvent_accepted [OF assms(1)])
qed

lemma authorize_returns:
  assumes audit: "\<forall>d. auditService_logAuthorizationEvent sv d = None"
      and u: "forgeUserAdapter_getUserPermissions sv u \<noteq> Inl (Thrown Undefined)"
      and n: "forgeUserAdapter_getUserPermissions sv u \<noteq> Inl (Thrown Null)"
  shows "\<exists>b. fst (authorizePortfolioAccess sv u bu tok w) = Inr b"
  using audit u n
  by (auto simp: authorizePortfolioAccess_def js_try_catch_def js_bind_def js_return_def
        js_lift_def js_read_def getUserPermissions_def logAuthorizationEvent_accepted
        split: sum.splits prod.splits if_splits
        dest!: hasPermissionType_throws hasBusinessUnitAccess_throws error_message_unreadable)

lemma authorize_typed:
  assumes "\<forall>d. auditService_logAuthorizationEvent sv d = None"
      and "forgeUserAdapter_getUserPermissions sv u = Inr (permissions_json ps)"
  shows "fst (authorizePortfolioAccess sv u bu tok w)
           = Inr (truthy tok \<and> isValidExecutiveUserId u \<and> granted ps bu)"
  using assms
  by (auto simp: authorizePortfolioAccess_def js_try_catch_def js_bind_def js_return_def
        js_lift_def js_read_def getUserPermissions_def logAuthorizationEvent_accepted
        hasPermissionType_permissions_json hasBusinessUnitAccess_permissions_json
        granted_def list_ex_iff
        split: sum.splits prod.splits if_splits)

lemma String_startsWith_iff: "String_startsWith s p \<longleftrightarrow> (\<exists>t. s = p @ t)"
proof
  assume "String_startsWith s p"
  then have "s = p @ drop (length p) s"
    by (metis String_startsWith_def append_take_drop_id)
  then show "\<exists>t. s = p @ t" ..
next
  assume "\<exists>t. s = p @ t"
  then show "String_startsWith s p" by (auto simp: String_startsWith_def)
qed

lemma isValidExecutiveUserId_iff:
  "isValidExecutiveUserId u \<longleftrightarrow> (\<exists>s. u = Str (''exec-'' @ s))"
  by (cases u) (simp_all add: isValidExecutiveUserId_def String_startsWith_iff)

lemma logAuthorizationEvent_calls:
  "logAuthorizationEvent sv u b r a w = (res, w') \<Longrightarrow>
     store w' = store w \<and>
     (\<exists>d. calls w' = calls w @ [Call_logAuthorizationEvent d])"
  by (auto simp: logAuthorizationEvent_def Let_def)

text \<open>
  C10, as the code has it. When the authentication token is falsy, or the caller
  identifier is not a string starting with \<open>exec-\<close>, \<open>authorizePortfolioAccess\<close> never
  answers true, whatever grants the caller holds, and it makes no call to
  \<open>getUserPermissions\<close>: the two refusal checks come before the permission list is
  fetched. It answers false provided the audit service records the event. (The refusal is
  logged with \<^verbatim>\<open>await\<close> inside the \<^verbatim>\<open>try\<close>; a rejection of that call is caught and
  logged inside the \<^verbatim>\<open>catch\<close>, where nothing catches a further failure.)
\<close>

theorem authorizePortfolioAccess_refuses_early:
  assumes "\<not> truthy authToken \<or> \<not> (\<exists>s. executiveUserId = Str (''exec-'' @ s))"
  shows "fst (authorizePortfolioAccess sv executiveUserId businessUnit authToken w) \<noteq> Inr True
       \<and> (\<exists>new. calls (snd (authorizePortfolioAccess sv executiveUserId businessUnit authToken w))
                   = calls w @ new
                 \<and> (\<forall>v. Call_getUserPermissions v \<notin> set new))
       \<and> ((\<forall>d. auditService_logAuthorizationEvent sv d = None) \<longrightarrow>
            fst (authorizePortfolioAccess sv executiveUserId businessUnit authToken w) = Inr False)"
proof -
  have early: "\<not> truthy authToken \<or> \<not> isValidExecutiveUserId executiveUserId"
    using assms by (simp add: isValidExecutiveUserId_iff)
  show ?thesis
    using early
    by (auto simp: authorizePortfolioAccess_def js_try_catch_def js_bind_def js_return_def
          js_read_def logAuthorizationEvent_def Let_def
          split: sum.splits prod.splits if_splits option.splits)
qed

theorem authorizePortfolioAccess_refuses_early_witness:
  "fst (authorizePortfolioAccess
          (example_services (Inr (permissions_json ceo_permissions)) None)
          (Str ''exec-ceo-001'') ''Corporate'' Null empty_world) = Inr False
   \<and> fst (authorizePortfolioAccess
          (example_services (Inr (permissions_json ceo_permissions)) None)
          (Str ''regular-user-001'') ''Corporate'' (Str ''auth-token-12345'') empty_world)
       = Inr False"
  using authorizePortfolioAccess_refuses_early
          [of Null "Str ''exec-ceo-001''"
              "example_services (Inr (permissions_json ceo_permissions)) None"
              "''Corporate''" empty_world]
        authorizePortfolioAccess_refuses_early
          [of "Str ''auth-token-12345''" "Str ''regular-user-001''"
              "example_services (Inr (permissions_json ceo_permissions)) None"
              "''Corporate''" empty_world]
  by (simp add: example_services_def)

text \<open>
  C10 as stated fails when the audit service is unavailable: with a falsy token and an
  audit service that rejects every event, the method does not return false, it raises.
\<close>

theorem authorizePortfolioAccess_refusal_raises_counterexample:
  "fst (authorizePortfolioAccess
          (example_services (Inr (permissions_json ceo_permissions))
             (Some (Rejected ''audit service unavailable'')))
          (Str ''exec-ceo-001'') ''Corporate'' Null empty_world)
     = Inl (Rejected ''audit service unavailable'')
   \<and> fst (authorizePortfolioAccess
          (example_services (Inr (permissions_json ceo_permissions))
             (Some (Rejected ''audit service unavailable'')))
          (Str ''exec-ceo-001'') ''Corporate'' Null empty_world)
     \<noteq> Inr False"
  by (simp add: authorizePortfolioAccess_def js_try_catch_def js_bind_def js_return_def
        js_read_def error_message_def logAuthorizationEvent_def example_services_def)

text \<open>
  C5, as the code has it. Let the audit service record every event. Then
  \<open>authorizePortfolioAccess\<close> returns false whenever the permission list, a list of
  permissions with a type and a list of business-unit names as scope, has no entry of
  type \<open>PORTFOLIO_VIEW\<close>, or no \<open>PORTFOLIO_VIEW\<close> entry whose scope contains the requested
  business unit or \<open>All_Units\<close>; it returns false when the permission lookup rejects with
  anything but \<^verbatim>\<open>undefined\<close> or \<^verbatim>\<open>null\<close>; and unless the permission lookup rejects with
  \<^verbatim>\<open>undefined\<close> or \<^verbatim>\<open>null\<close> it returns a boolean, and does not raise, for every caller
  identifier, business unit, token and answer of the permission lookup.
\<close>

theorem authorizePortfolioAccess_false_without_grant:
  assumes "\<forall>d. auditService_logAuthorizationEvent sv d = None"
  shows "(forgeUserAdapter_getUserPermissions sv executiveUserId \<noteq> Inl (Thrown Undefined)
            \<and> forgeUserAdapter_getUserPermissions sv executiveUserId \<noteq> Inl (Thrown Null)
          \<longrightarrow> (\<exists>b. fst (authorizePortfolioAccess sv executiveUserId businessUnit authToken w)
                     = Inr b))
       \<and> (forgeUserAdapter_getUserPermissions sv executiveUserId = Inr (permissions_json ps)
            \<and> (\<forall>p \<in> set ps. type p \<noteq> ''PORTFOLIO_VIEW'')
          \<longrightarrow> fst (authorizePortfolioAccess sv executiveUserId businessUnit authToken w) = Inr False)
       \<and> (forgeUserAdapter_getUserPermissions sv executiveUserId = Inr (permissions_json ps)
            \<and> (\<forall>p \<in> set ps. type p = ''PORTFOLIO_VIEW'' \<longrightarrow>
                   businessUnit \<notin> set (scope p) \<and> ''All_Units'' \<notin> set (scope p))
          \<longrightarrow> fst (authorizePortfolioAccess sv executiveUserId businessUnit authToken w) = Inr False)
       \<and> (\<forall>e. forgeUserAdapter_getUserPermissions sv executiveUserId = Inl e
              \<and> e \<noteq> Thrown Undefined \<and> e \<noteq> Thrown Null
          \<longrightarrow> fst (authorizePortfolioAccess sv executiveUserId businessUnit authToken w) = Inr False)"
proof (intro conjI impI allI)
  assume "forgeUserAdapter_getUserPermissions sv executiveUserId \<noteq> Inl (Thrown Undefined)
            \<and> forgeUserAdapter_getUserPermissions sv executiveUserId \<noteq> Inl (Thrown Null)"
  then show "\<exists>b. fst (authorizePortfolioAccess sv executiveUserId businessUnit authToken w) = Inr b"
    using authorize_returns [OF assms] by blast
next
  assume a: "forgeUserAdapter_getUserPermissions sv executiveUserId = Inr (permissions_json ps)
             \<and> (\<forall>p \<in> set ps. type p \<noteq> ''PORTFOLIO_VIEW'')"
  then have "\<not> granted ps businessUnit" by (auto simp: granted_def list_ex_iff)
  with a show "fst (authorizePortfolioAccess sv executiveUserId businessUnit authToken w) = Inr False"
    using authorize_typed [OF assms, of executiveUserId ps businessUnit authToken w] by simp
next
  assume a: "forgeUserAdapter_getUserPermissions sv executiveUserId = Inr (permissions_json ps)
             \<and> (\<forall>p \<in> set ps. type p = ''PORTFOLIO_VIEW'' \<longrightarrow>
                   businessUnit \<notin> set (scope p) \<and> ''All_Units'' \<notin> set (scope p))"
  then have "\<not> granted ps businessUnit" by (auto simp: granted_def list_ex_iff)
  with a show "fst (authorizePortfolioAccess sv executiveUserId businessUnit authToken w) = Inr False"
    using authorize_typed [OF assms, of executiveUserId ps businessUnit authToken w] by simp
next
  fix e
  assume a: "forgeUserAdapter_getUserPermissions sv executiveUserId = Inl e
             \<and> e \<noteq> Thrown Undefined \<and> e \<noteq> Thrown Null"
  then have e: "e \<noteq> Thrown Undefined" "e \<noteq> Thrown Null" by simp_all
  have body: "truthy authToken \<Longrightarrow> isValidExecutiveUserId executiveUserId \<Longrightarrow>
        authorizePortfolioAccess sv executiveUserId businessUnit authToken w
          = js_bind (js_read (\<lambda>h. error_message h e)) (\<lambda>reason.
              js_bind (logAuthorizationEvent sv executiveUserId businessUnit ''ERROR''
                         [(''reason'', reason)])
                (\<lambda>_. js_return False))
              (w\<lparr>calls := calls w @ [Call_getUserPermissions executiveUserId]\<rparr>)"
    using a by (simp add: authorizePortfolioAccess_def js_try_catch_def js_bind_def
                  getUserPermissions_def)
  show "fst (authorizePortfolioAccess sv executiveUserId businessUnit authToken w) = Inr False"
  proof (cases "truthy authToken \<and> isValidExecutiveUserId executiveUserId")
    case True
    then show ?thesis by (simp add: body authorize_handler [OF assms e])
  next
    case False
    then show ?thesis
      using assms
      by (auto simp: authorizePortfolioAccess_def js_try_catch_def js_bind_def js_return_def
            logAuthorizationEvent_accepted)
  qed
qed

theorem authorizePortfolioAccess_false_without_grant_witness:
  "fst (authorizePortfolioAccess
          (example_services (Inr (permissions_json basic_permissions)) None)
          (Str ''exec-readonly-001'') ''Corporate'' (Str ''auth-token-12345'') empty_world)
     = Inr False
   \<and> fst (authorizePortfolioAccess
          (example_services (Inr (permissions_json sales_permissions)) None)
          (Str ''exec-sales-001'') ''TopSecret'' (Str ''auth-token-12345'') empty_world)
     = Inr False
   \<and> fst (authorizePortfolioAccess
          (example_services (Inl (Rejected ''User service unavailable'')) None)
          (Str ''exec-ceo-001'') ''Corporate'' (Str ''auth-token-12345'') empty_world)
     = Inr False"
  using authorizePortfolioAccess_false_without_grant
          [of "example_services (Inr (permissions_json basic_permissions)) None"
              "Str ''exec-readonly-001''" "''Corporate''" "Str ''auth-token-12345''"
              empty_world basic_permissions]
        authorizePortfolioAccess_false_without_grant
          [of "example_services (Inr (permissions_json sales_permissions)) None"
              "Str ''exec-sales-001''" "''TopSecret''" "Str ''auth-token-12345''"
              empty_world sales_permissions]
        authorizePortfolioAccess_false_without_grant
          [of "example_services (Inl (Rejected ''User service unavailable'')) None"
              "Str ''exec-ceo-001''" "''Corporate''" "Str ''auth-token-12345''"
              empty_world "[]"]
  by (simp add: example_services_def basic_permissions_def sales_permissions_def)

text \<open>
  C5 as stated fails when the audit service is unavailable: the permission list has no
  \<open>PORTFOLIO_VIEW\<close> entry, the audit service rejects every event, and the method raises
  instead of returning false.
\<close>

theorem authorizePortfolioAccess_raises_counterexample:
  "fst (authorizePortfolioAccess
          (example_services (Inr (permissions_json basic_permissions))
             (Some (Rejected ''audit service unavailable'')))
          (Str ''exec-readonly-001'') ''Corporate'' (Str ''auth-token-12345'') empty_world)
     = Inl (Rejected ''audit service unavailable'')"
  by (simp add: authorizePortfolioAccess_def js_try_catch_def js_bind_def js_return_def
        js_lift_def js_read_def error_message_def getUserPermissions_def
        logAuthorizationEvent_def example_services_def
        hasPermissionType_permissions_json basic_permissions_def
        isValidExecutiveUserId_def String_startsWith_def)

text \<open>
  It fails as well, with an audit service that records every event, when the permission
  lookup rejects with \<^verbatim>\<open>undefined\<close>: reading \<^verbatim>\<open>error.message\<close> in the \<^verbatim>\<open>catch\<close> block is a
  \<^verbatim>\<open>TypeError\<close>, raised before the error is logged.
\<close>

lemma authorizePortfolioAccess_undefined_rejection_raises:
  "authorizePortfolioAccess
     (example_services (Inl (Thrown Undefined)) None)
     (Str ''exec-ceo-001'') ''Corporate'' (Str ''auth-token-12345'') empty_world
     = (Inl (TypeError ''Cannot read properties of undefined''),
        \<lparr> store = [], calls = [Call_getUserPermissions (Str ''exec-ceo-001'')] \<rparr>)"
  by (simp add: authorizePortfolioAccess_def js_try_catch_def js_bind_def js_return_def
        js_read_def error_message_def get_prop_def getUserPermissions_def
        example_services_def empty_world_def
        isValidExecutiveUserId_def String_startsWith_def)

text \<open>With a recording audit service the same request is answered, and a matching grant
  is honoured.\<close>

lemma authorizePortfolioAccess_grants:
  "fst (authorizePortfolioAccess
          (example_services (Inr (permissions_json sales_permissions)) None)
          (Str ''exec-sales-001'') ''Sales'' (Str ''auth-token-12345'') empty_world)
     = Inr True"
  by (simp add: authorize_typed example_services_def granted_def sales_permissions_def
        isValidExecutiveUserId_def String_startsWith_def)
section \<open>Properties of the portfolio filter\<close>

lemma cell_at_append_new [simp]: "cell_at (h @ [c]) (length h) = Some c"
  by (simp add: cell_at_def)

lemma cell_at_append_old: "a < length h \<Longrightarrow> cell_at (h @ ex) a = cell_at h a"
  by (simp add: cell_at_def nth_append)

lemma spread_props_append: "valid h v \<Longrightarrow> spread_props (h @ ex) v = spread_props h v"
  by (cases v) (simp_all add: spread_props_def valid_def cell_at_append_old)

lemma valid_append: "valid h v \<Longrightarrow> valid (h @ ex) v"
  by (cases v) (simp_all add: valid_def)

lemma redact_project_result:
  "redact_project f d project w =
     (Inr (Ref (length (store w))),
      w\<lparr>store := store w @
           [Obj (filter (\<lambda>(k, v). (f \<or> (k \<noteq> ''budget'' \<and> k \<noteq> ''revenue''))
                     \<and> (d \<or> k \<noteq> ''detailedMetrics'')) (spread_props (store w) project))]\<rparr>)"
  by (cases f; cases d)
     (simp_all add: redact_project_def js_bind_def js_read_def js_alloc_def js_return_def
        delete_prop_def case_prod_unfold)

lemma upt_add_Suc: "[n..<n + Suc k] = n # [Suc n..<Suc n + k]"
  by (subst upt_rec) simp

lemma Array_map_alloc:
  assumes g: "\<And>e w. g e w = (Inr (Ref (length (store w))), w\<lparr>store := store w @ [c (store w) e]\<rparr>)"
      and stable: "\<And>e ex. e \<in> set elems \<Longrightarrow> c (store w @ ex) e = c (store w) e"
  shows "Array_map g elems w =
     (Inr (map Ref [length (store w)..<length (store w) + length elems]),
      w\<lparr>store := store w @ map (c (store w)) elems\<rparr>)"
  using stable
proof (induction elems arbitrary: w)
  case Nil
  then show ?case by (simp add: js_return_def)
next
  case (Cons e es)
  let ?w1 = "w\<lparr>store := store w @ [c (store w) e]\<rparr>"
  have st: "\<And>x ex. x \<in> set es \<Longrightarrow> c (store ?w1 @ ex) x = c (store ?w1) x"
    using Cons.prems [of _ "[c (store w) e] @ _"] Cons.prems [of _ "[c (store w) e]"]
    by simp
  have same: "map (c (store ?w1)) es = map (c (store w)) es"
    using Cons.prems [of _ "[c (store w) e]"] by simp
  have upt: "[length (store w)..<length (store w) + length (e # es)]
               = length (store w) # [length (store ?w1)..<length (store ?w1) + length es]"
    using upt_add_Suc [of "length (store w)" "length es"] by simp
  have "Array_map g (e # es) w =
          (case Array_map g es ?w1 of
             (Inl x, w') \<Rightarrow> (Inl x, w')
           | (Inr ys, w') \<Rightarrow> (Inr (Ref (length (store w)) # ys), w'))"
    by (simp add: js_bind_def js_return_def g split: prod.splits sum.splits)
  also have "\<dots> = (Inr (Ref (length (store w)) #
                         map Ref [length (store ?w1)..<length (store ?w1) + length es]),
                    ?w1\<lparr>store := store ?w1 @ map (c (store ?w1)) es\<rparr>)"
    by (simp only: Cons.IH [OF st] prod.case sum.case)
  also have "\<dots> = (Inr (map Ref [length (store w)..<length (store w) + length (e # es)]),
                    w\<lparr>store := store w @ map (c (store w)) (e # es)\<rparr>)"
    by (simp only: upt same) simp
  finally show ?case .
qed

lemma filterSensitiveProjectData_result:
  assumes "array_elems (store w) projects' = Inr elems"
      and "\<forall>e \<in> set elems. valid (store w) e"
  shows "filterSensitiveProjectData projects' (permissions_json ps) w =
           (Inr (Ref (length (store w) + length elems)),
            w\<lparr>store := store w
                 @ map (\<lambda>e. Obj (redact ps (spread_props (store w) e))) elems
                 @ [Arr (map Ref [length (store w)..<length (store w) + length elems])]\<rparr>)"
proof -
  let ?f = "holds ps ''FINANCIAL_DATA''" and ?d = "holds ps ''DETAILED_METRICS''"
  let ?c = "\<lambda>h e. Obj (filter (\<lambda>(k, v). (?f \<or> (k \<noteq> ''budget'' \<and> k \<noteq> ''revenue''))
                     \<and> (?d \<or> k \<noteq> ''detailedMetrics'')) (spread_props h e))"
  have m: "Array_map (redact_project ?f ?d) elems w =
     (Inr (map Ref [length (store w)..<length (store w) + length elems]),
      w\<lparr>store := store w @ map (?c (store w)) elems\<rparr>)"
    by (rule Array_map_alloc [where c = ?c])
       (use assms(2) in \<open>simp_all add: redact_project_result spread_props_append\<close>)
  show ?thesis
    unfolding filterSensitiveProjectData_def
    by (simp add: js_bind_def js_lift_def js_read_def js_alloc_def
          hasPermissionType_permissions_json holds_def [symmetric] assms(1) m redact_def)
qed

lemma map_of_filter_key:
  "map_of (filter (\<lambda>(k, v). P k) xs) k = (if P k then map_of xs k else None)"
  by (induction xs) auto

lemma map_of_redact:
  "map_of (redact ps props) k =
     (if (holds ps ''FINANCIAL_DATA'' \<or> (k \<noteq> ''budget'' \<and> k \<noteq> ''revenue''))
         \<and> (holds ps ''DETAILED_METRICS'' \<or> k \<noteq> ''detailedMetrics'')
      then map_of props k else None)"
  unfolding redact_def by (rule map_of_filter_key)

text \<open>
  C2. \<open>filterSensitiveProjectData\<close> returns a new array with one new object per project
  it is given (the projects that survived business-unit scoping), in the same order. The
  copy has no \<open>budget\<close> and no \<open>revenue\<close> property when the permission list has no entry
  of type \<open>FINANCIAL_DATA\<close>, no \<open>detailedMetrics\<close> property when it has no entry of type
  \<open>DETAILED_METRICS\<close>, and every other property (\<open>key\<close>, \<open>name\<close>, \<open>businessUnit\<close>, the
  issue counts) is present in the copy exactly when it is present in the project, with
  the same value. The projects themselves are not written to.
\<close>

theorem filterSensitiveProjectData_redacts:
  assumes "array_elems (store w) projects' = Inr elems"
      and "\<forall>e \<in> set elems. valid (store w) e"
  shows "\<exists>out w' copies.
           filterSensitiveProjectData projects' (permissions_json ps) w = (Inr out, w')
         \<and> array_elems (store w') out = Inr copies
         \<and> length copies = length elems
         \<and> take (length (store w)) (store w') = store w
         \<and> (\<forall>i < length elems.
              ((\<forall>p \<in> set ps. type p \<noteq> ''FINANCIAL_DATA'') \<longrightarrow>
                 map_of (spread_props (store w') (copies ! i)) ''budget'' = None
               \<and> map_of (spread_props (store w') (copies ! i)) ''revenue'' = None)
            \<and> ((\<forall>p \<in> set ps. type p \<noteq> ''DETAILED_METRICS'') \<longrightarrow>
                 map_of (spread_props (store w') (copies ! i)) ''detailedMetrics'' = None)
            \<and> (\<forall>k. k \<notin> {''budget'', ''revenue'', ''detailedMetrics''} \<longrightarrow>
                 map_of (spread_props (store w') (copies ! i)) k
                   = map_of (spread_props (store w) (elems ! i)) k))"
proof -
  let ?n = "length (store w)"
  let ?copies = "map Ref [?n..<?n + length elems]"
  let ?w' = "w\<lparr>store := store w
                 @ map (\<lambda>e. Obj (redact ps (spread_props (store w) e))) elems
                 @ [Arr ?copies]\<rparr>"
  have res: "filterSensitiveProjectData projects' (permissions_json ps) w
               = (Inr (Ref (?n + length elems)), ?w')"
    using assms by (rule filterSensitiveProjectData_result)
  have arr: "array_elems (store ?w') (Ref (?n + length elems)) = Inr ?copies"
    by (simp add: array_elems_def cell_at_def nth_append)
  have copy: "spread_props (store ?w') (?copies ! i)
                = redact ps (spread_props (store w) (elems ! i))" if "i < length elems" for i
    using that by (simp add: spread_props_def cell_at_def nth_append)
  have nofin: "holds ps t \<longleftrightarrow> \<not> (\<forall>p \<in> set ps. type p \<noteq> t)" for t
    by (auto simp: holds_def list_ex_iff)
  have fields: "((\<forall>p \<in> set ps. type p \<noteq> ''FINANCIAL_DATA'') \<longrightarrow>
                 map_of (spread_props (store ?w') (?copies ! i)) ''budget'' = None
               \<and> map_of (spread_props (store ?w') (?copies ! i)) ''revenue'' = None)
            \<and> ((\<forall>p \<in> set ps. type p \<noteq> ''DETAILED_METRICS'') \<longrightarrow>
                 map_of (spread_props (store ?w') (?copies ! i)) ''detailedMetrics'' = None)
            \<and> (\<forall>k. k \<notin> {''budget'', ''revenue'', ''detailedMetrics''} \<longrightarrow>
                 map_of (spread_props (store ?w') (?copies ! i)) k
                   = map_of (spread_props (store w) (elems ! i)) k)"
    if "i < length elems" for i
    unfolding copy [OF that] by (simp add: map_of_redact nofin)
  have len: "length ?copies = length elems" by simp
  have frame: "take (length (store w)) (store ?w') = store w" by simp
  from res arr len frame fields show ?thesis by blast
qed

theorem filterSensitiveProjectData_redacts_witness:
  "\<exists>out w' copies.
     filterSensitiveProjectData (Ref 3) (permissions_json sales_permissions) example_world
       = (Inr out, w')
   \<and> array_elems (store w') out = Inr copies
   \<and> length copies = 2
   \<and> map_of (spread_props (store example_world) (Ref 1)) ''budget'' = Some (Number 1000000)
   \<and> map_of (spread_props (store w') (copies ! 0)) ''budget'' = None
   \<and> map_of (spread_props (store w') (copies ! 0)) ''revenue'' = None
   \<and> map_of (spread_props (store w') (copies ! 0)) ''detailedMetrics'' = None
   \<and> map_of (spread_props (store w') (copies ! 0)) ''key'' = Some (Str ''CRM'')
   \<and> map_of (spread_props (store w') (copies ! 0)) ''name'' = Some (Str ''Sales CRM'')
   \<and> map_of (spread_props (store w') (copies ! 0)) ''businessUnit'' = Some (Str ''Sales'')
   \<and> map_of (spread_props (store w') (copies ! 0)) ''overdueIssues'' = Some (Number 2)"
proof -
  have elems: "array_elems (store example_world) (Ref 3) = Inr [Ref 1, Ref 2]"
    by (simp add: example_world_def example_store_def array_elems_def cell_at_def)
  have ok: "\<forall>e \<in> set [Ref 1, Ref 2]. valid (store example_world) e"
    by (simp add: example_world_def example_store_def valid_def)
  have input: "spread_props (store example_world) ([Ref 1, Ref 2] ! 0)
                 = [(''key'', Str ''CRM''), (''name'', Str ''Sales CRM''),
                    (''businessUnit'', Str ''Sales''),
                    (''overdueIssues'', Number 2), (''blockedIssues'', Number 1),
                    (''highPriorityIssues'', Number 3),
                    (''budget'', Number 1000000), (''revenue'', Number 2000000),
                    (''detailedMetrics'', Ref 0)]"
    by (simp add: example_world_def example_store_def spread_props_def cell_at_def)
  have none: "\<forall>p \<in> set sales_permissions. type p \<noteq> ''FINANCIAL_DATA''"
             "\<forall>p \<in> set sales_permissions. type p \<noteq> ''DETAILED_METRICS''"
    by (simp_all add: sales_permissions_def)
  from filterSensitiveProjectData_redacts [OF elems ok, of sales_permissions]
  obtain out w' copies where
    run: "filterSensitiveProjectData (Ref 3) (permissions_json sales_permissions) example_world
            = (Inr out, w')"
    and arr: "array_elems (store w') out = Inr copies"
    and len: "length copies = length [Ref 1 :: val, Ref 2]"
    and each: "\<forall>i < length [Ref 1 :: val, Ref 2].
              ((\<forall>p \<in> set sales_permissions. type p \<noteq> ''FINANCIAL_DATA'') \<longrightarrow>
                 map_of (spread_props (store w') (copies ! i)) ''budget'' = None
               \<and> map_of (spread_props (store w') (copies ! i)) ''revenue'' = None)
            \<and> ((\<forall>p \<in> set sales_permissions. type p \<noteq> ''DETAILED_METRICS'') \<longrightarrow>
                 map_of (spread_props (store w') (copies ! i)) ''detailedMetrics'' = None)
            \<and> (\<forall>k. k \<notin> {''budget'', ''revenue'', ''detailedMetrics''} \<longrightarrow>
                 map_of (spread_props (store w') (copies ! i)) k
                   = map_of (spread_props (store example_world) ([Ref 1, Ref 2] ! i)) k)"
    apply (elim exE conjE)
    subgoal for out w' copies
      apply (rule that [of out w' copies])
         apply assumption+
      done
    done
  have zero: "(0::nat) < length [Ref 1 :: val, Ref 2]" by simp
  note at0 = each [rule_format, OF zero]
  have b: "map_of (spread_props (store w') (copies ! 0)) ''budget'' = None"
    and r: "map_of (spread_props (store w') (copies ! 0)) ''revenue'' = None"
    using at0 none(1) by blast+
  have d: "map_of (spread_props (store w') (copies ! 0)) ''detailedMetrics'' = None"
    using at0 none(2) by blast
  have keep: "map_of (spread_props (store w') (copies ! 0)) k
         = map_of (spread_props (store example_world) ([Ref 1, Ref 2] ! 0)) k"
    if "k \<notin> {''budget'', ''revenue'', ''detailedMetrics''}" for k
    using at0 that by blast
  have k1: "map_of (spread_props (store w') (copies ! 0)) ''key'' = Some (Str ''CRM'')"
    using keep [of "''key''"] input by simp
  have k2: "map_of (spread_props (store w') (copies ! 0)) ''name'' = Some (Str ''Sales CRM'')"
    using keep [of "''name''"] input by simp
  have k3: "map_of (spread_props (store w') (copies ! 0)) ''businessUnit'' = Some (Str ''Sales'')"
    using keep [of "''businessUnit''"] input by simp
  have k4: "map_of (spread_props (store w') (copies ! 0)) ''overdueIssues'' = Some (Number 2)"
    using keep [of "''overdueIssues''"] input by simp
  have before: "map_of (spread_props (store example_world) (Ref 1)) ''budget''
                  = Some (Number 1000000)"
    using input by simp
  have len2: "length copies = 2" using len by simp
  show ?thesis
    apply (rule exI [of _ out], rule exI [of _ w'], rule exI [of _ copies])
    apply (intro conjI run arr len2 before b r d k1 k2 k3 k4)
    done
qed
section \<open>The filter writes to new cells only\<close>

lemma keepsI:
  assumes "\<And>w r w'. n \<le> length (store w) \<Longrightarrow> closed_above n (store w) \<Longrightarrow> m w = (r, w') \<Longrightarrow>
             n \<le> length (store w') \<and> take n (store w') = take n (store w)
             \<and> closed_above n (store w') \<and> (\<forall>x. r = Inr x \<longrightarrow> Q x)"
  shows "keeps n m Q"
  unfolding keeps_def
proof (intro allI impI)
  fix w :: world
  assume pre: "n \<le> length (store w) \<and> closed_above n (store w)"
  obtain r w' where run: "m w = (r, w')" by (cases "m w")
  from pre have "n \<le> length (store w)" and "closed_above n (store w)" by simp_all
  then have post: "n \<le> length (store w') \<and> take n (store w') = take n (store w)
           \<and> closed_above n (store w') \<and> (\<forall>x. r = Inr x \<longrightarrow> Q x)"
    using run by (rule assms)
  show "case m w of (r, w') \<Rightarrow>
           n \<le> length (store w') \<and> take n (store w') = take n (store w)
           \<and> closed_above n (store w') \<and> (\<forall>x. r = Inr x \<longrightarrow> Q x)"
    unfolding run prod.case by (rule post)
qed

lemma keepsD:
  assumes "keeps n m Q" and "n \<le> length (store w)" and "closed_above n (store w)"
      and "m w = (r, w')"
  shows "n \<le> length (store w')" and "take n (store w') = take n (store w)"
    and "closed_above n (store w')" and "r = Inr x \<Longrightarrow> Q x"
proof -
  from assms(1-3) have "case m w of (r, w') \<Rightarrow>
           n \<le> length (store w') \<and> take n (store w') = take n (store w)
           \<and> closed_above n (store w') \<and> (\<forall>x. r = Inr x \<longrightarrow> Q x)"
    unfolding keeps_def by simp
  then have all: "n \<le> length (store w') \<and> take n (store w') = take n (store w)
           \<and> closed_above n (store w') \<and> (\<forall>x. r = Inr x \<longrightarrow> Q x)"
    unfolding assms(4) prod.case .
  from all show "n \<le> length (store w')" by simp
  from all show "take n (store w') = take n (store w)" by simp
  from all show "closed_above n (store w')" by simp
  from all show "r = Inr x \<Longrightarrow> Q x" by simp
qed

lemma keeps_weaken:
  assumes "keeps n m P" and "\<And>x. P x \<Longrightarrow> Q x"
  shows "keeps n m Q"
proof (rule keepsI)
  fix w :: world and r and w' :: world
  assume pre: "n \<le> length (store w)" "closed_above n (store w)" and run: "m w = (r, w')"
  note k = keepsD [OF assms(1) pre run]
  from k assms(2) show "n \<le> length (store w') \<and> take n (store w') = take n (store w)
        \<and> closed_above n (store w') \<and> (\<forall>x. r = Inr x \<longrightarrow> Q x)"
    by simp
qed

lemma keeps_return: "Q x \<Longrightarrow> keeps n (js_return x) Q"
  by (rule keepsI) (auto simp: js_return_def)

lemma keeps_lift: "(\<And>x. r = Inr x \<Longrightarrow> Q x) \<Longrightarrow> keeps n (js_lift r) Q"
  by (rule keepsI) (auto simp: js_lift_def)

lemma keeps_read:
  "(\<And>h x. n \<le> length h \<Longrightarrow> closed_above n h \<Longrightarrow> f h = Inr x \<Longrightarrow> Q x) \<Longrightarrow> keeps n (js_read f) Q"
  by (rule keepsI) (auto simp: js_read_def)

lemma keeps_bind:
  assumes m: "keeps n m P" and f: "\<And>x. P x \<Longrightarrow> keeps n (f x) Q"
  shows "keeps n (js_bind m f) Q"
proof (rule keepsI)
  fix w :: world and r and w' :: world
  assume pre: "n \<le> length (store w)" "closed_above n (store w)"
    and run: "js_bind m f w = (r, w')"
  obtain r1 w1 where m1: "m w = (r1, w1)" by (cases "m w")
  note k1 = keepsD [OF m pre m1]
  show "n \<le> length (store w') \<and> take n (store w') = take n (store w)
        \<and> closed_above n (store w') \<and> (\<forall>x. r = Inr x \<longrightarrow> Q x)"
  proof (cases r1)
    case (Inl e)
    with run m1 have "r = Inl e" "w' = w1" by (simp_all add: js_bind_def)
    with k1 show ?thesis by simp
  next
    case (Inr x)
    with run m1 have fx: "f x w1 = (r, w')" by (simp add: js_bind_def)
    note k2 = keepsD [OF f [OF k1(4) [OF Inr]] k1(1) k1(3) fx]
    from k1 k2 show ?thesis by simp
  qed
qed

lemma keeps_try_catch:
  assumes m: "keeps n m Q" and f: "\<And>e. keeps n (handler e) Q"
  shows "keeps n (js_try_catch m handler) Q"
proof (rule keepsI)
  fix w :: world and r and w' :: world
  assume pre: "n \<le> length (store w)" "closed_above n (store w)"
    and run: "js_try_catch m handler w = (r, w')"
  obtain r1 w1 where m1: "m w = (r1, w1)" by (cases "m w")
  note k1 = keepsD [OF m pre m1]
  show "n \<le> length (store w') \<and> take n (store w') = take n (store w)
        \<and> closed_above n (store w') \<and> (\<forall>x. r = Inr x \<longrightarrow> Q x)"
  proof (cases r1)
    case (Inr x)
    with run m1 have "r = Inr x" "w' = w1" by (simp_all add: js_try_catch_def)
    with k1 Inr show ?thesis by simp
  next
    case (Inl e)
    with run m1 have fx: "handler e w1 = (r, w')" by (simp add: js_try_catch_def)
    note k2 = keepsD [OF f k1(1) k1(3) fx]
    from k1 k2 show ?thesis by simp
  qed
qed

lemma keeps_if:
  "(c \<Longrightarrow> keeps n a Q) \<Longrightarrow> (\<not> c \<Longrightarrow> keeps n b Q) \<Longrightarrow> keeps n (if c then a else b) Q"
  by simp

lemma closed_above_append:
  assumes "closed_above n h" and "\<forall>v \<in> set (cell_vals c). not_below n v"
  shows "closed_above n (h @ [c])"
  unfolding closed_above_def
proof (intro allI impI ballI)
  fix b v
  assume b: "n \<le> b \<and> b < length (h @ [c])" and v: "v \<in> set (cell_vals ((h @ [c]) ! b))"
  show "not_below n v"
  proof (cases "b < length h")
    case True
    with b v assms(1) show ?thesis by (simp add: closed_above_def nth_append)
  next
    case False
    with b have "b = length h" by simp
    with v assms(2) show ?thesis by simp
  qed
qed

lemma closed_above_update:
  assumes "closed_above n h" and "\<forall>v \<in> set (cell_vals c). not_below n v"
  shows "closed_above n (h[a := c])"
  unfolding closed_above_def
proof (intro allI impI ballI)
  fix b v
  assume b: "n \<le> b \<and> b < length (h[a := c])" and v: "v \<in> set (cell_vals (h[a := c] ! b))"
  show "not_below n v"
  proof (cases "b = a")
    case True
    with b v assms(2) show ?thesis by simp
  next
    case False
    with b v assms(1) show ?thesis by (simp add: closed_above_def)
  qed
qed

lemma keeps_alloc:
  assumes "\<forall>v \<in> set (cell_vals c). not_below n v"
  shows "keeps n (js_alloc c) (not_below n)"
proof (rule keepsI)
  fix w :: world and r and w' :: world
  assume pre: "n \<le> length (store w)" "closed_above n (store w)"
    and run: "js_alloc c w = (r, w')"
  from run have r: "r = Inr (Ref (length (store w)))" and w': "store w' = store w @ [c]"
    by (auto simp: js_alloc_def)
  show "n \<le> length (store w') \<and> take n (store w') = take n (store w)
        \<and> closed_above n (store w') \<and> (\<forall>x. r = Inr x \<longrightarrow> not_below n x)"
    using pre assms by (simp add: r w' closed_above_append not_below_def)
qed

lemma closed_above_cell:
  "closed_above n h \<Longrightarrow> n \<le> a \<Longrightarrow> cell_at h a = Some c \<Longrightarrow> v \<in> set (cell_vals c) \<Longrightarrow> not_below n v"
  unfolding closed_above_def cell_at_def by (auto split: if_splits)

lemma take_update_above: "n \<le> a \<Longrightarrow> take n (h[a := c]) = take n h"
  by simp

lemma keeps_getUserPermissions: "keeps n (getUserPermissions sv u) (\<lambda>_. True)"
  by (rule keepsI) (auto simp: getUserPermissions_def)

lemma not_below_simps [simp]:
  "not_below n Undefined" "not_below n Null" "not_below n (Bool b)" "not_below n (Number q)"
  "not_below n (Str s)" "not_below n (Ref a) \<longleftrightarrow> n \<le> a"
  by (simp_all add: not_below_def)

lemma cell_vals_simps [simp]:
  "cell_vals (Obj ps) = map snd ps" "cell_vals (Arr xs) = xs"
  by (simp_all add: cell_vals_def)

lemma own_property_cases: "own_property ps k = Undefined \<or> own_property ps k \<in> snd ` set ps"
  by (auto simp: own_property_def split: option.splits dest: map_of_SomeD intro: rev_image_eqI)

lemma get_prop_not_below:
  assumes "closed_above n h" and "not_below n v" and "get_prop h v k = Inr x"
  shows "not_below n x"
proof (cases v)
  case (Ref a)
  show ?thesis
  proof (cases "cell_at h a")
    case None
    with Ref assms(3) show ?thesis by (simp add: get_prop_def)
  next
    case (Some c)
    show ?thesis
    proof (cases c)
      case (Arr xs)
      with Ref Some assms(3) show ?thesis by (simp add: get_prop_def)
    next
      case (Obj ps)
      with Ref Some assms(3) have x: "x = own_property ps k" by (simp add: get_prop_def)
      from assms(2) Ref have "n \<le> a" by simp
      then have "\<forall>y \<in> set (cell_vals c). not_below n y"
        using closed_above_cell [OF assms(1) _ Some] by blast
      with Obj x own_property_cases [of ps k] show ?thesis by auto
    qed
  qed
qed (use assms(3) in \<open>simp_all add: get_prop_def\<close>)

lemma array_elems_not_below:
  assumes "closed_above n h" and "not_below n v" and "array_elems h v = Inr xs"
  shows "\<forall>x \<in> set xs. not_below n x"
proof (cases v)
  case (Ref a)
  with assms(3) obtain c where c: "cell_at h a = Some c" and "c = Arr xs"
    by (auto simp: array_elems_def split: option.splits cell.splits)
  moreover from assms(2) Ref have "n \<le> a" by simp
  ultimately show ?thesis using closed_above_cell [OF assms(1) _ c] by auto
qed (use assms(3) in \<open>simp_all add: array_elems_def\<close>)

lemma spread_props_not_below:
  assumes "closed_above n h" and "not_below n v"
  shows "\<forall>x \<in> set (map snd (spread_props h v)). not_below n x"
proof (cases v)
  case (Ref a)
  from assms(2) Ref have na: "n \<le> a" by simp
  show ?thesis
  proof (cases "cell_at h a")
    case None
    with Ref show ?thesis by (simp add: spread_props_def)
  next
    case (Some c)
    have all: "\<forall>y \<in> set (cell_vals c). not_below n y"
      using closed_above_cell [OF assms(1) na Some] by blast
    show ?thesis
    proof (cases c)
      case (Obj ps)
      with Ref Some all show ?thesis by (simp add: spread_props_def)
    next
      case (Arr xs)
      have "set (map snd (zip (index_keys (length xs)) xs)) \<subseteq> set xs"
        by (auto dest: set_zip_rightD)
      with Arr Ref Some all show ?thesis by (auto simp: spread_props_def)
    qed
  qed
next
  case (Str s)
  then show ?thesis by (auto simp: spread_props_def dest!: set_zip_rightD)
qed (simp_all add: spread_props_def)

lemma Array_filter_set: "Array_filter f xs = Inr ys \<Longrightarrow> set ys \<subseteq> set xs"
  by (induction xs arbitrary: ys) (auto split: sum.splits if_splits)

lemma assign_vals: "(k', x) \<in> set (assign k v ps) \<Longrightarrow> x = v \<or> (k', x) \<in> set ps"
  by (induction ps) (auto split: if_splits)

lemma keeps_set_prop:
  assumes "not_below n obj" and "not_below n v"
  shows "keeps n (set_prop obj k v) (\<lambda>_. True)"
proof (rule keepsI)
  fix w :: world and r and w' :: world
  assume pre: "n \<le> length (store w)" "closed_above n (store w)"
    and run: "set_prop obj k v w = (r, w')"
  have goal: "n \<le> length (store w') \<and> take n (store w') = take n (store w)
        \<and> closed_above n (store w')"
  proof (cases "\<exists>a ps. obj = Ref a \<and> cell_at (store w) a = Some (Obj ps)")
    case True
    then obtain a ps where o: "obj = Ref a" and c: "cell_at (store w) a = Some (Obj ps)"
      by blast
    from run o c have w': "store w' = (store w)[a := Obj (assign k v ps)]"
      by (auto simp: set_prop_def)
    from assms(1) o have na: "n \<le> a" by simp
    have old: "\<forall>y \<in> set (cell_vals (Obj ps)). not_below n y"
      using closed_above_cell [OF pre(2) na c] by blast
    have "\<forall>y \<in> set (cell_vals (Obj (assign k v ps))). not_below n y"
      using old assms(2) by (auto dest: assign_vals)
    then show ?thesis using pre na by (simp add: w' closed_above_update)
  next
    case False
    with run have "store w' = store w"
      by (auto simp: set_prop_def split: val.splits option.splits cell.splits)
    with pre show ?thesis by simp
  qed
  then show "n \<le> length (store w') \<and> take n (store w') = take n (store w)
        \<and> closed_above n (store w') \<and> (\<forall>x. r = Inr x \<longrightarrow> True)" by simp
qed

lemma keeps_delete_prop:
  assumes "not_below n obj"
  shows "keeps n (delete_prop obj k) (\<lambda>_. True)"
proof (rule keepsI)
  fix w :: world and r and w' :: world
  assume pre: "n \<le> length (store w)" "closed_above n (store w)"
    and run: "delete_prop obj k w = (r, w')"
  have goal: "n \<le> length (store w') \<and> take n (store w') = take n (store w)
        \<and> closed_above n (store w')"
  proof (cases "\<exists>a ps. obj = Ref a \<and> cell_at (store w) a = Some (Obj ps)")
    case True
    then obtain a ps where o: "obj = Ref a" and c: "cell_at (store w) a = Some (Obj ps)"
      by blast
    from run o c have w': "store w' = (store w)[a := Obj (filter (\<lambda>(k', v'). k' \<noteq> k) ps)]"
      by (auto simp: delete_prop_def)
    from assms(1) o have na: "n \<le> a" by simp
    have old: "\<forall>y \<in> set (cell_vals (Obj ps)). not_below n y"
      using closed_above_cell [OF pre(2) na c] by blast
    have "\<forall>y \<in> set (cell_vals (Obj (filter (\<lambda>(k', v'). k' \<noteq> k) ps))). not_below n y"
      using old by auto
    then show ?thesis using pre na by (simp add: w' closed_above_update)
  next
    case False
    with run have "store w' = store w"
      by (auto simp: delete_prop_def split: val.splits option.splits cell.splits)
    with pre show ?thesis by simp
  qed
  then show "n \<le> length (store w') \<and> take n (store w') = take n (store w)
        \<and> closed_above n (store w') \<and> (\<forall>x. r = Inr x \<longrightarrow> True)" by simp
qed

lemma keeps_Array_map:
  assumes "\<And>x. x \<in> set xs \<Longrightarrow> keeps n (f x) Q"
  shows "keeps n (Array_map f xs) (\<lambda>ys. \<forall>y \<in> set ys. Q y)"
  using assms
proof (induction xs)
  case Nil
  show ?case by (simp add: keeps_return)
next
  case (Cons x xs)
  show ?case
    unfolding Array_map.simps
  proof (rule keeps_bind [where P = Q])
    show "keeps n (f x) Q" using Cons.prems by simp
  next
    fix y assume y: "Q y"
    show "keeps n (js_bind (Array_map f xs) (\<lambda>ys. js_return (y # ys))) (\<lambda>ys. \<forall>y \<in> set ys. Q y)"
    proof (rule keeps_bind [where P = "\<lambda>ys. \<forall>y \<in> set ys. Q y"])
      show "keeps n (Array_map f xs) (\<lambda>ys. \<forall>y \<in> set ys. Q y)"
        using Cons.IH Cons.prems by simp
    next
      fix ys assume "\<forall>y \<in> set ys. Q y"
      with y show "keeps n (js_return (y # ys)) (\<lambda>ys. \<forall>y \<in> set ys. Q y)"
        by (simp add: keeps_return)
    qed
  qed
qed

lemma not_below_mono: "not_below n v \<Longrightarrow> m \<le> n \<Longrightarrow> not_below m v"
  by (cases v) simp_all

lemma grown_refl: "grown h h []"
  by (simp add: grown_def)

lemma grown_prim:
  "grown h h [Null]" "grown h h [Bool b]" "grown h h [Number q]" "grown h h [Str s]"
  by (simp_all add: grown_def valid_def)

lemma grown_trans:
  assumes "grown h h1 xs" and "grown h1 h2 ys"
  shows "grown h h2 (xs @ ys)"
proof -
  from assms(1) obtain e1 where h1: "h1 = h @ e1"
    and c1: "\<forall>c \<in> set e1. \<forall>x \<in> set (cell_vals c). not_below (length h) x \<and> valid h1 x"
    and x1: "\<forall>x \<in> set xs. not_below (length h) x \<and> valid h1 x"
    unfolding grown_def by blast
  from assms(2) obtain e2 where h2: "h2 = h1 @ e2"
    and c2: "\<forall>c \<in> set e2. \<forall>x \<in> set (cell_vals c). not_below (length h1) x \<and> valid h2 x"
    and x2: "\<forall>x \<in> set ys. not_below (length h1) x \<and> valid h2 x"
    unfolding grown_def by blast
  have le: "length h \<le> length h1" by (simp add: h1)
  have v: "valid h1 x \<Longrightarrow> valid h2 x" for x by (simp add: h2 valid_append)
  have "h2 = h @ (e1 @ e2)" by (simp add: h1 h2)
  moreover have "\<forall>c \<in> set (e1 @ e2). \<forall>x \<in> set (cell_vals c). not_below (length h) x \<and> valid h2 x"
    using c1 c2 v not_below_mono [OF _ le] by auto
  moreover have "\<forall>x \<in> set (xs @ ys). not_below (length h) x \<and> valid h2 x"
    using x1 x2 v not_below_mono [OF _ le] by auto
  ultimately show ?thesis unfolding grown_def by blast
qed

lemma grown_alloc:
  assumes "grown h h1 (cell_vals c)"
  shows "grown h (h1 @ [c]) [Ref (length h1)]"
proof -
  from assms obtain e1 where h1: "h1 = h @ e1"
    and c1: "\<forall>c \<in> set e1. \<forall>x \<in> set (cell_vals c). not_below (length h) x \<and> valid h1 x"
    and x1: "\<forall>x \<in> set (cell_vals c). not_below (length h) x \<and> valid h1 x"
    unfolding grown_def by blast
  have v: "valid h1 x \<Longrightarrow> valid (h1 @ [c]) x" for x by (simp add: valid_append)
  have "h1 @ [c] = h @ (e1 @ [c])" by (simp add: h1)
  moreover have "\<forall>d \<in> set (e1 @ [c]). \<forall>x \<in> set (cell_vals d).
                   not_below (length h) x \<and> valid (h1 @ [c]) x"
    using c1 x1 v by auto
  moreover have "\<forall>x \<in> set [Ref (length h1)]. not_below (length h) x \<and> valid (h1 @ [c]) x"
    by (simp add: h1 valid_def)
  ultimately show ?thesis unfolding grown_def by blast
qed

lemma parse_grown:
  "parse j h = (v, h') \<Longrightarrow> grown h h' [v]"
  "parse_elems js h = (vs, h') \<Longrightarrow> grown h h' vs"
  "parse_props ps h = (qs, h') \<Longrightarrow> grown h h' (map snd qs)"
proof (induction j h and js h and ps h arbitrary: v h' and vs h' and qs h'
       rule: parse_parse_elems_parse_props.induct)
  case (5 js h)
  obtain vs h1 where p: "parse_elems js h = (vs, h1)" by (cases "parse_elems js h")
  from "5.IH" [OF p] have "grown h h1 (cell_vals (Arr vs))" by simp
  from grown_alloc [OF this] "5.prems" p show ?case by auto
next
  case (6 ps h)
  obtain qs h1 where p: "parse_props ps h = (qs, h1)" by (cases "parse_props ps h")
  from "6.IH" [OF p] have "grown h h1 (cell_vals (Obj qs))" by simp
  from grown_alloc [OF this] "6.prems" p show ?case by auto
next
  case (8 j js h)
  obtain v1 h1 where p1: "parse j h = (v1, h1)" by (cases "parse j h")
  obtain vs2 h2 where p2: "parse_elems js h1 = (vs2, h2)" by (cases "parse_elems js h1")
  from "8.IH"(1) [OF p1] have g1: "grown h h1 [v1]" .
  from "8.IH"(2) [OF p1 [symmetric] p2] have g2: "grown h1 h2 vs2" .
  from grown_trans [OF g1 g2] "8.prems" p1 p2 show ?case by auto
next
  case (10 k j ps h)
  obtain v1 h1 where p1: "parse j h = (v1, h1)" by (cases "parse j h")
  obtain qs2 h2 where p2: "parse_props ps h1 = (qs2, h2)" by (cases "parse_props ps h1")
  from "10.IH"(1) [OF p1] have g1: "grown h h1 [v1]" .
  from "10.IH"(2) [OF p1 [symmetric] p2] have g2: "grown h1 h2 (map snd qs2)" .
  from grown_trans [OF g1 g2] "10.prems" p1 p2 show ?case by auto
qed (auto simp: grown_refl grown_prim)

lemma closed_above_grown:
  assumes "closed_above n h" and "n \<le> length h" and "grown h h' xs"
  shows "closed_above n h' \<and> n \<le> length h' \<and> take n h' = take n h
         \<and> (\<forall>x \<in> set xs. not_below n x)"
proof -
  from assms(3) obtain ex where h': "h' = h @ ex"
    and c: "\<forall>c \<in> set ex. \<forall>x \<in> set (cell_vals c). not_below (length h) x \<and> valid h' x"
    and x: "\<forall>x \<in> set xs. not_below (length h) x \<and> valid h' x"
    unfolding grown_def by blast
  have "closed_above n h'"
    unfolding closed_above_def
  proof (intro allI impI ballI)
    fix a v
    assume a: "n \<le> a \<and> a < length h'" and v: "v \<in> set (cell_vals (h' ! a))"
    show "not_below n v"
    proof (cases "a < length h")
      case True
      with a v assms(1) show ?thesis by (simp add: closed_above_def h' nth_append)
    next
      case False
      with a have "a - length h < length ex" unfolding h' by simp linarith
      then have "ex ! (a - length h) \<in> set ex" by (rule nth_mem)
      with False have "h' ! a \<in> set ex" by (simp add: h' nth_append)
      with c v have "not_below (length h) v" by blast
      then show ?thesis using assms(2) by (rule not_below_mono)
    qed
  qed
  moreover have "\<forall>x \<in> set xs. not_below n x"
    using x assms(2) not_below_mono by blast
  ultimately show ?thesis using assms(2) by (simp add: h')
qed

lemma keeps_JSON_parse: "keeps n (JSON_parse text) (not_below n)"
proof (rule keepsI)
  fix w :: world and r and w' :: world
  assume pre: "n \<le> length (store w)" "closed_above n (store w)"
    and run: "JSON_parse text w = (r, w')"
  show "n \<le> length (store w') \<and> take n (store w') = take n (store w)
        \<and> closed_above n (store w') \<and> (\<forall>x. r = Inr x \<longrightarrow> not_below n x)"
  proof (cases "text")
    case None
    with run pre show ?thesis by (auto simp: JSON_parse_def)
  next
    case (Some j)
    obtain v h' where p: "parse j (store w) = (v, h')" by (cases "parse j (store w)")
    from run Some p have r: "r = Inr v" and w': "store w' = h'"
      by (auto simp: JSON_parse_def)
    from closed_above_grown [OF pre(2) pre(1) parse_grown(1) [OF p]]
    show ?thesis by (simp add: r w')
  qed
qed

lemma keeps_filterProjectsByBusinessUnit:
  assumes "not_below n pv"
  shows "keeps n (filterProjectsByBusinessUnit pv permissions) (not_below n)"
  unfolding filterProjectsByBusinessUnit_def
proof (rule keeps_bind [where P = "\<lambda>_. True"], rule keeps_lift, simp, rule keeps_if)
  show "keeps n (js_alloc (Arr [])) (not_below n)" by (rule keeps_alloc) simp
next
  fix portfolioPermissions :: "json list"
  show "keeps n
     (js_bind (js_lift (Array_reduce
                           (\<lambda>units permission.
                              ebind (json_get (Some permission) ''scope'')
                                (\<lambda>sc. Inr (Array_concat units sc)))
                           [] portfolioPermissions))
         (\<lambda>authorizedUnits.
       js_bind (js_read (\<lambda>h.
                  ebind (array_elems h pv)
                    (Array_filter
                       (\<lambda>project.
                          ebind (get_prop h project ''businessUnit'')
                            (\<lambda>unit. Inr (Array_includes authorizedUnits unit
                                         \<or> Array_includes authorizedUnits (Str ''All_Units'')))))))
         (\<lambda>kept.
       js_alloc (Arr kept)))) (not_below n)"
  proof (rule keeps_bind [where P = "\<lambda>_. True"], rule keeps_lift, simp,
         rule keeps_bind [where P = "\<lambda>kept. \<forall>x \<in> set kept. not_below n x"])
    fix authorizedUnits :: "json option list"
    show "keeps n (js_read (\<lambda>h.
                  ebind (array_elems h pv)
                    (Array_filter
                       (\<lambda>project.
                          ebind (get_prop h project ''businessUnit'')
                            (\<lambda>unit. Inr (Array_includes authorizedUnits unit
                                         \<or> Array_includes authorizedUnits (Str ''All_Units'')))))))
            (\<lambda>kept. \<forall>x \<in> set kept. not_below n x)"
    proof (rule keeps_read)
      fix h kept
      assume c: "closed_above n h"
        and f: "ebind (array_elems h pv)
                    (Array_filter
                       (\<lambda>project.
                          ebind (get_prop h project ''businessUnit'')
                            (\<lambda>unit. Inr (Array_includes authorizedUnits unit
                                         \<or> Array_includes authorizedUnits (Str ''All_Units'')))))
               = Inr kept"
      from f obtain elems where e: "array_elems h pv = Inr elems"
        by (cases "array_elems h pv") simp_all
      from f e have "set kept \<subseteq> set elems" by (simp add: Array_filter_set)
      with array_elems_not_below [OF c assms e] show "\<forall>x \<in> set kept. not_below n x" by blast
    qed
  next
    fix kept :: "val list"
    assume "\<forall>x \<in> set kept. not_below n x"
    then show "keeps n (js_alloc (Arr kept)) (not_below n)" by (intro keeps_alloc) simp
  qed
qed

lemma keeps_redact_project:
  assumes "not_below n project"
  shows "keeps n (redact_project f d project) (not_below n)"
  unfolding redact_project_def
proof (rule keeps_bind [where P = "\<lambda>props. \<forall>x \<in> set (map snd props). not_below n x"])
  show "keeps n (js_read (\<lambda>h. Inr (spread_props h project)))
          (\<lambda>props. \<forall>x \<in> set (map snd props). not_below n x)"
    by (rule keeps_read) (use assms spread_props_not_below in auto)
next
  fix props :: "(string \<times> val) list"
  assume p: "\<forall>x \<in> set (map snd props). not_below n x"
  show "keeps n
          (js_bind (js_alloc (Obj props))
            (\<lambda>filteredProject.
                js_bind
                 (if \<not> f
                  then js_bind (delete_prop filteredProject ''budget'')
                        (\<lambda>_. delete_prop filteredProject ''revenue'')
                  else js_return ())
                 (\<lambda>_. js_bind
                        (if \<not> d then delete_prop filteredProject ''detailedMetrics''
                         else js_return ())
                        (\<lambda>_. js_return filteredProject))))
          (not_below n)"
  proof (rule keeps_bind [where P = "not_below n"])
    show "keeps n (js_alloc (Obj props)) (not_below n)" using p by (intro keeps_alloc) simp
  next
    fix filteredProject assume fp: "not_below n filteredProject"
    show "keeps n
          (js_bind
                 (if \<not> f
                  then js_bind (delete_prop filteredProject ''budget'')
                        (\<lambda>_. delete_prop filteredProject ''revenue'')
                  else js_return ())
                 (\<lambda>_. js_bind
                        (if \<not> d then delete_prop filteredProject ''detailedMetrics''
                         else js_return ())
                        (\<lambda>_. js_return filteredProject)))
          (not_below n)"
      by (intro keeps_bind [where P = "\<lambda>_. True"] keeps_if keeps_delete_prop keeps_return fp TrueI)
  qed
qed

lemma keeps_filterSensitiveProjectData:
  assumes "not_below n pv"
  shows "keeps n (filterSensitiveProjectData pv permissions) (not_below n)"
  unfolding filterSensitiveProjectData_def
proof (rule keeps_bind [where P = "\<lambda>_. True"], rule keeps_lift, simp,
       rule keeps_bind [where P = "\<lambda>_. True"], rule keeps_lift, simp,
       rule keeps_bind [where P = "\<lambda>elems. \<forall>x \<in> set elems. not_below n x"])
  show "keeps n (js_read (\<lambda>h. array_elems h pv)) (\<lambda>elems. \<forall>x \<in> set elems. not_below n x)"
    by (rule keeps_read) (use assms array_elems_not_below in blast)
next
  fix f d and elems :: "val list"
  assume e: "\<forall>x \<in> set elems. not_below n x"
  show "keeps n (js_bind (Array_map (redact_project f d) elems) (\<lambda>copies. js_alloc (Arr copies)))
          (not_below n)"
  proof (rule keeps_bind [where P = "\<lambda>copies. \<forall>x \<in> set copies. not_below n x"])
    show "keeps n (Array_map (redact_project f d) elems) (\<lambda>copies. \<forall>x \<in> set copies. not_below n x)"
      by (rule keeps_Array_map) (use e keeps_redact_project in blast)
  next
    fix copies :: "val list"
    assume "\<forall>x \<in> set copies. not_below n x"
    then show "keeps n (js_alloc (Arr copies)) (not_below n)" by (intro keeps_alloc) simp
  qed
qed

lemma keeps_filterPortfolioDataByPermissions_projects:
  assumes fd: "not_below n filteredData"
  shows "keeps n (filterPortfolioDataByPermissions_projects filteredData userPermissions)
           (\<lambda>_. True)"
  unfolding filterPortfolioDataByPermissions_projects_def
proof -
  have rd: "keeps n (js_read (\<lambda>h. get_prop h filteredData ''projects'')) (not_below n)"
    by (rule keeps_read) (use fd get_prop_not_below in blast)
  show "keeps n
          (js_bind (js_read (\<lambda>h. get_prop h filteredData ''projects'')) (\<lambda>unfiltered.
           js_bind (filterProjectsByBusinessUnit unfiltered userPermissions) (\<lambda>scoped.
           js_bind (set_prop filteredData ''projects'' scoped) (\<lambda>_.
           js_bind (js_read (\<lambda>h. get_prop h filteredData ''projects'')) (\<lambda>unredacted.
           js_bind (filterSensitiveProjectData unredacted userPermissions) (\<lambda>redacted.
           set_prop filteredData ''projects'' redacted))))))
          (\<lambda>_. True)"
  proof (rule keeps_bind [OF rd],
         rule keeps_bind [OF keeps_filterProjectsByBusinessUnit], assumption,
         rule keeps_bind [OF keeps_set_prop [OF fd]], assumption,
         rule keeps_bind [OF rd],
         rule keeps_bind [OF keeps_filterSensitiveProjectData], assumption)
    fix redacted assume "not_below n redacted"
    then show "keeps n (set_prop filteredData ''projects'' redacted) (\<lambda>_. True)"
      by (rule keeps_set_prop [OF fd])
  qed
qed

lemma keeps_filterPortfolioDataByPermissions_try:
  "keeps n (filterPortfolioDataByPermissions_try sv executiveUserId portfolioData) (not_below n)"
  unfolding filterPortfolioDataByPermissions_try_def
proof (rule keeps_bind [OF keeps_getUserPermissions],
       rule keeps_bind [where P = "\<lambda>_. True"], rule keeps_read, simp,
       rule keeps_bind [OF keeps_JSON_parse])
  fix userPermissions :: "json option" and filteredData :: val
  assume fd: "not_below n filteredData"
  have rd: "keeps n (js_read (\<lambda>h. get_prop h filteredData ''projects'')) (not_below n)"
    by (rule keeps_read) (use fd get_prop_not_below in blast)
  show "keeps n
          (js_bind (js_read (\<lambda>h. get_prop h filteredData ''projects'')) (\<lambda>present.
           js_bind (if truthy present then
                      filterPortfolioDataByPermissions_projects filteredData userPermissions
                    else js_return ()) (\<lambda>_.
           js_bind (js_lift (hasPermissionType userPermissions ''FINANCIAL_DATA'')) (\<lambda>financial.
           js_bind (if \<not> financial then delete_prop filteredData ''financialData''
                    else js_return ()) (\<lambda>_.
           js_return filteredData)))))
          (not_below n)"
    by (intro keeps_bind [OF rd] keeps_bind [where P = "\<lambda>_. True"] keeps_lift keeps_if
          keeps_filterPortfolioDataByPermissions_projects keeps_delete_prop keeps_return
          fd TrueI)
qed

lemma keeps_filterPortfolioDataByPermissions:
  "keeps n (filterPortfolioDataByPermissions sv executiveUserId portfolioData) (not_below n)"
  unfolding filterPortfolioDataByPermissions_def
proof (rule keeps_try_catch [OF keeps_filterPortfolioDataByPermissions_try])
  fix e
  have literal:
    "keeps n (js_bind (js_alloc (Arr [])) (\<lambda>empty. js_alloc (Obj [(''projects'', empty)])))
       (not_below n)"
    by (rule keeps_bind [where P = "not_below n"]) (simp_all add: keeps_alloc)
  show "keeps n
          (js_bind (js_read (\<lambda>h. error_message h e)) (\<lambda>logged.
           js_bind (js_alloc (Arr [])) (\<lambda>empty. js_alloc (Obj [(''projects'', empty)]))))
          (not_below n)"
  proof (rule keeps_bind [where P = "\<lambda>_. True"])
    show "keeps n (js_read (\<lambda>h. error_message h e)) (\<lambda>_. True)"
      by (rule keeps_read) simp
  next
    fix logged :: val
    show "keeps n (js_bind (js_alloc (Arr [])) (\<lambda>empty. js_alloc (Obj [(''projects'', empty)])))
            (not_below n)"
      by (rule literal)
  qed
qed

lemma filterPortfolioDataByPermissions_fails_closed:
  assumes "filterPortfolioDataByPermissions_try sv executiveUserId portfolioData w = (Inl e, w1)"
      and "error_message (store w1) e = Inr m"
  shows "filterPortfolioDataByPermissions sv executiveUserId portfolioData w =
           (Inr (Ref (Suc (length (store w1)))),
            w1\<lparr>store := store w1 @ [Arr [], Obj [(''projects'', Ref (length (store w1)))]]\<rparr>)"
  using assms
  by (simp add: filterPortfolioDataByPermissions_def js_try_catch_def js_bind_def js_read_def
        js_alloc_def)

lemma filterPortfolioDataByPermissions_handler_raises:
  assumes "filterPortfolioDataByPermissions_try sv executiveUserId portfolioData w = (Inl e, w1)"
      and "error_message (store w1) e = Inl te"
  shows "filterPortfolioDataByPermissions sv executiveUserId portfolioData w = (Inl te, w1)"
  using assms
  by (simp add: filterPortfolioDataByPermissions_def js_try_catch_def js_bind_def js_read_def)

text \<open>
  What the \<^verbatim>\<open>try\<close> block throws can be read for its message, unless the permission
  lookup rejected with \<^verbatim>\<open>undefined\<close> or \<^verbatim>\<open>null\<close>.
\<close>

lemma filterPortfolioDataByPermissions_try_readable:
  assumes t: "filterPortfolioDataByPermissions_try sv executiveUserId portfolioData w = (Inl e, w1)"
      and u: "forgeUserAdapter_getUserPermissions sv executiveUserId \<noteq> Inl (Thrown Undefined)"
      and n: "forgeUserAdapter_getUserPermissions sv executiveUserId \<noteq> Inl (Thrown Null)"
  shows "\<exists>m. error_message h e = Inr m"
proof -
  from throws_onlyD [OF throws_filterPortfolioDataByPermissions_try t]
  have "run_time_error e \<or> forgeUserAdapter_getUserPermissions sv executiveUserId = Inl e" .
  then have "e \<noteq> Thrown Undefined \<and> e \<noteq> Thrown Null"
    using u n by (cases e) auto
  then show ?thesis using error_message_readable by blast
qed

lemma filterPortfolioDataByPermissions_returns:
  assumes u: "forgeUserAdapter_getUserPermissions sv executiveUserId \<noteq> Inl (Thrown Undefined)"
      and n: "forgeUserAdapter_getUserPermissions sv executiveUserId \<noteq> Inl (Thrown Null)"
  shows "\<exists>out. fst (filterPortfolioDataByPermissions sv executiveUserId portfolioData w) = Inr out"
proof -
  let ?body = "filterPortfolioDataByPermissions_try sv executiveUserId portfolioData w"
  obtain r0 w1 where t0: "?body = (r0, w1)" by (cases ?body)
  show ?thesis
  proof (cases r0)
    case (Inl e)
    with t0 have t: "?body = (Inl e, w1)" by simp
    from filterPortfolioDataByPermissions_try_readable [OF t u n] obtain m where
      "error_message (store w1) e = Inr m" by blast
    from filterPortfolioDataByPermissions_fails_closed [OF t this] show ?thesis by simp
  next
    case (Inr x)
    with t0 show ?thesis by (simp add: filterPortfolioDataByPermissions_def js_try_catch_def)
  qed
qed

lemma reach_not_below:
  assumes "reach h v a" and "closed_above n h" and "not_below n v"
  shows "n \<le> a"
  using assms
proof (induction rule: reach.induct)
  case (reach_root a)
  then show ?case by simp
next
  case (reach_step a c b)
  then have "n \<le> a" by simp
  from closed_above_cell [OF reach_step.prems(1) this reach_step.hyps(2) reach_step.hyps(3)]
  show ?case by simp
qed

text \<open>
  C6, as the code has it. \<open>filterPortfolioDataByPermissions\<close> never writes to a cell that
  existed before the call, whether it returns or raises: the caller's portfolio object,
  its project array and its project objects are unchanged afterwards. Every object
  reachable from a value it returns was allocated during the call. Unless the permission
  lookup rejects with \<^verbatim>\<open>undefined\<close> or \<^verbatim>\<open>null\<close>, it returns a value and does not raise, and
  when anything throws inside the \<^verbatim>\<open>try\<close> block (the permission lookup rejects, the
  portfolio cannot be serialised, a permission entry or a project is \<^verbatim>\<open>null\<close>, the project
  list is not an array), the value returned is a new object whose only property is
  \<open>projects\<close>, a new empty array.
\<close>

theorem filterPortfolioDataByPermissions_leaves_input:
  "take (length (store w))
      (store (snd (filterPortfolioDataByPermissions sv executiveUserId portfolioData w)))
     = store w
   \<and> (\<forall>out a. fst (filterPortfolioDataByPermissions sv executiveUserId portfolioData w) = Inr out
          \<and> reach (store (snd (filterPortfolioDataByPermissions sv executiveUserId
                                 portfolioData w))) out a
        \<longrightarrow> length (store w) \<le> a)
   \<and> (forgeUserAdapter_getUserPermissions sv executiveUserId \<noteq> Inl (Thrown Undefined)
        \<and> forgeUserAdapter_getUserPermissions sv executiveUserId \<noteq> Inl (Thrown Null)
      \<longrightarrow> (\<exists>out. fst (filterPortfolioDataByPermissions sv executiveUserId portfolioData w)
                   = Inr out)
        \<and> (\<forall>e w1. filterPortfolioDataByPermissions_try sv executiveUserId portfolioData w
                      = (Inl e, w1)
             \<longrightarrow> (\<exists>r a. fst (filterPortfolioDataByPermissions sv executiveUserId portfolioData w)
                           = Inr (Ref r)
                       \<and> cell_at (store (snd (filterPortfolioDataByPermissions sv executiveUserId
                                                portfolioData w))) r
                           = Some (Obj [(''projects'', Ref a)])
                       \<and> cell_at (store (snd (filterPortfolioDataByPermissions sv executiveUserId
                                                portfolioData w))) a
                           = Some (Arr []))))"
proof -
  let ?n = "length (store w)"
  let ?run = "filterPortfolioDataByPermissions sv executiveUserId portfolioData w"
  have closed: "closed_above ?n (store w)" by (auto simp: closed_above_def)
  have run: "?run = (fst ?run, snd ?run)" by simp
  note k = keepsD [OF keeps_filterPortfolioDataByPermissions le_refl closed run]
  have frame: "take ?n (store (snd ?run)) = store w" using k(2) by simp
  have new: "\<forall>out a. fst ?run = Inr out \<and> reach (store (snd ?run)) out a \<longrightarrow> ?n \<le> a"
  proof (intro allI impI)
    fix out a
    assume "fst ?run = Inr out \<and> reach (store (snd ?run)) out a"
    then have out: "fst ?run = Inr out" and r: "reach (store (snd ?run)) out a" by simp_all
    from reach_not_below [OF r k(3) k(4) [OF out]] show "?n \<le> a" .
  qed
  have guarded: "(\<exists>out. fst ?run = Inr out)
        \<and> (\<forall>e w1. filterPortfolioDataByPermissions_try sv executiveUserId portfolioData w
                      = (Inl e, w1)
             \<longrightarrow> (\<exists>r a. fst ?run = Inr (Ref r)
                       \<and> cell_at (store (snd ?run)) r = Some (Obj [(''projects'', Ref a)])
                       \<and> cell_at (store (snd ?run)) a = Some (Arr [])))"
    if un: "forgeUserAdapter_getUserPermissions sv executiveUserId \<noteq> Inl (Thrown Undefined)
        \<and> forgeUserAdapter_getUserPermissions sv executiveUserId \<noteq> Inl (Thrown Null)"
  proof (intro conjI allI impI)
    from un show "\<exists>out. fst ?run = Inr out"
      by (intro filterPortfolioDataByPermissions_returns) simp_all
  next
    fix e w1
    assume t: "filterPortfolioDataByPermissions_try sv executiveUserId portfolioData w = (Inl e, w1)"
    from un have u: "forgeUserAdapter_getUserPermissions sv executiveUserId \<noteq> Inl (Thrown Undefined)"
      and n: "forgeUserAdapter_getUserPermissions sv executiveUserId \<noteq> Inl (Thrown Null)"
      by simp_all
    from filterPortfolioDataByPermissions_try_readable [OF t u n] obtain m where
      m: "error_message (store w1) e = Inr m" by blast
    show "\<exists>r a. fst ?run = Inr (Ref r)
                  \<and> cell_at (store (snd ?run)) r = Some (Obj [(''projects'', Ref a)])
                  \<and> cell_at (store (snd ?run)) a = Some (Arr [])"
      unfolding filterPortfolioDataByPermissions_fails_closed [OF t m]
      by (simp add: cell_at_def nth_append)
  qed
  from frame new guarded show ?thesis by blast
qed

theorem filterPortfolioDataByPermissions_leaves_input_witness:
  "take (length (store example_world))
      (store (snd (filterPortfolioDataByPermissions
          (example_services (Inr (permissions_json sales_permissions)) None)
          (Str ''exec-sales-001'') (Ref 5) example_world)))
     = store example_world
   \<and> fst (filterPortfolioDataByPermissions
          (example_services (Inr (permissions_json sales_permissions)) None)
          (Str ''exec-sales-001'') (Ref 5) example_world) = Inr (Ref 11)
   \<and> reach (store (snd (filterPortfolioDataByPermissions
          (example_services (Inr (permissions_json sales_permissions)) None)
          (Str ''exec-sales-001'') (Ref 5) example_world))) (Ref 11) 11
   \<and> length (store example_world) \<le> 11
   \<and> fst (filterPortfolioDataByPermissions_try
          (example_services (Inr (Some (JArray [JNull]))) None)
          (Str ''exec-sales-001'') (Ref 5) example_world)
       = Inl (TypeError ''Cannot read properties of null'')
   \<and> (\<exists>r a. fst (filterPortfolioDataByPermissions
                   (example_services (Inr (Some (JArray [JNull]))) None)
                   (Str ''exec-sales-001'') (Ref 5) example_world) = Inr (Ref r)
          \<and> cell_at (store (snd (filterPortfolioDataByPermissions
                   (example_services (Inr (Some (JArray [JNull]))) None)
                   (Str ''exec-sales-001'') (Ref 5) example_world))) r
              = Some (Obj [(''projects'', Ref a)])
          \<and> cell_at (store (snd (filterPortfolioDataByPermissions
                   (example_services (Inr (Some (JArray [JNull]))) None)
                   (Str ''exec-sales-001'') (Ref 5) example_world))) a
              = Some (Arr []))"
proof -
  let ?good = "example_services (Inr (permissions_json sales_permissions)) None"
  let ?bad = "example_services (Inr (Some (JArray [JNull]))) None"
  let ?u = "Str ''exec-sales-001''"
  note good = filterPortfolioDataByPermissions_leaves_input [of example_world ?good ?u "Ref 5"]
  note bad = filterPortfolioDataByPermissions_leaves_input [of example_world ?bad ?u "Ref 5"]
  have frame: "take (length (store example_world))
      (store (snd (filterPortfolioDataByPermissions ?good ?u (Ref 5) example_world)))
     = store example_world"
    using good by (rule conjunct1)
  have result: "fst (filterPortfolioDataByPermissions ?good ?u (Ref 5) example_world)
                  = Inr (Ref 11)"
    by code_simp
  have root: "reach (store (snd (filterPortfolioDataByPermissions ?good ?u (Ref 5) example_world)))
                (Ref 11) 11"
    by (rule reach_root) simp
  from good result root have fresh: "length (store example_world) \<le> 11" by blast
  have thrown: "fst (filterPortfolioDataByPermissions_try ?bad ?u (Ref 5) example_world)
                  = Inl (TypeError ''Cannot read properties of null'')"
    by code_simp
  then have t: "filterPortfolioDataByPermissions_try ?bad ?u (Ref 5) example_world
               = (Inl (TypeError ''Cannot read properties of null''),
                  snd (filterPortfolioDataByPermissions_try ?bad ?u (Ref 5) example_world))"
    by (metis prod.collapse)
  have resolves: "forgeUserAdapter_getUserPermissions ?bad ?u \<noteq> Inl (Thrown Undefined)
        \<and> forgeUserAdapter_getUserPermissions ?bad ?u \<noteq> Inl (Thrown Null)"
    by (simp add: example_services_def)
  from bad have "forgeUserAdapter_getUserPermissions ?bad ?u \<noteq> Inl (Thrown Undefined)
        \<and> forgeUserAdapter_getUserPermissions ?bad ?u \<noteq> Inl (Thrown Null)
      \<longrightarrow> (\<exists>out. fst (filterPortfolioDataByPermissions ?bad ?u (Ref 5) example_world) = Inr out)
        \<and> (\<forall>e w1. filterPortfolioDataByPermissions_try ?bad ?u (Ref 5) example_world
                      = (Inl e, w1)
             \<longrightarrow> (\<exists>r a. fst (filterPortfolioDataByPermissions ?bad ?u (Ref 5) example_world)
                           = Inr (Ref r)
                       \<and> cell_at (store (snd (filterPortfolioDataByPermissions ?bad ?u (Ref 5)
                                                example_world))) r
                           = Some (Obj [(''projects'', Ref a)])
                       \<and> cell_at (store (snd (filterPortfolioDataByPermissions ?bad ?u (Ref 5)
                                                example_world))) a
                           = Some (Arr [])))"
    by (elim conjE)
  from this resolves
  have "(\<exists>out. fst (filterPortfolioDataByPermissions ?bad ?u (Ref 5) example_world) = Inr out)
        \<and> (\<forall>e w1. filterPortfolioDataByPermissions_try ?bad ?u (Ref 5) example_world
                      = (Inl e, w1)
             \<longrightarrow> (\<exists>r a. fst (filterPortfolioDataByPermissions ?bad ?u (Ref 5) example_world)
                           = Inr (Ref r)
                       \<and> cell_at (store (snd (filterPortfolioDataByPermissions ?bad ?u (Ref 5)
                                                example_world))) r
                           = Some (Obj [(''projects'', Ref a)])
                       \<and> cell_at (store (snd (filterPortfolioDataByPermissions ?bad ?u (Ref 5)
                                                example_world))) a
                           = Some (Arr [])))"
    by (rule mp)
  then have closed_failure:
    "\<forall>e w1. filterPortfolioDataByPermissions_try ?bad ?u (Ref 5) example_world = (Inl e, w1)
             \<longrightarrow> (\<exists>r a. fst (filterPortfolioDataByPermissions ?bad ?u (Ref 5) example_world)
                           = Inr (Ref r)
                       \<and> cell_at (store (snd (filterPortfolioDataByPermissions ?bad ?u (Ref 5)
                                                example_world))) r
                           = Some (Obj [(''projects'', Ref a)])
                       \<and> cell_at (store (snd (filterPortfolioDataByPermissions ?bad ?u (Ref 5)
                                                example_world))) a
                           = Some (Arr []))"
    by (rule conjunct2)
  have empty:
    "\<exists>r a. fst (filterPortfolioDataByPermissions ?bad ?u (Ref 5) example_world) = Inr (Ref r)
          \<and> cell_at (store (snd (filterPortfolioDataByPermissions ?bad ?u (Ref 5) example_world))) r
              = Some (Obj [(''projects'', Ref a)])
          \<and> cell_at (store (snd (filterPortfolioDataByPermissions ?bad ?u (Ref 5) example_world))) a
              = Some (Arr [])"
    by (rule closed_failure [rule_format, OF t])
  from frame result root fresh thrown empty show ?thesis by (intro conjI)
qed

text \<open>
  C6 as stated fails in its second half when the permission lookup rejects with
  \<^verbatim>\<open>undefined\<close>: reading \<^verbatim>\<open>error.message\<close> in the \<^verbatim>\<open>catch\<close> block is a \<^verbatim>\<open>TypeError\<close>, and
  the method raises it instead of returning an empty project list.
\<close>

theorem filterPortfolioDataByPermissions_raises_counterexample:
  "filterPortfolioDataByPermissions_try
     (example_services (Inl (Thrown Undefined)) None)
     (Str ''exec-sales-001'') (Ref 5) example_world
     = (Inl (Thrown Undefined),
        \<lparr> store = example_store, calls = [Call_getUserPermissions (Str ''exec-sales-001'')] \<rparr>)
   \<and> filterPortfolioDataByPermissions
       (example_services (Inl (Thrown Undefined)) None)
       (Str ''exec-sales-001'') (Ref 5) example_world
     = (Inl (TypeError ''Cannot read properties of undefined''),
        \<lparr> store = example_store, calls = [Call_getUserPermissions (Str ''exec-sales-001'')] \<rparr>)
   \<and> (\<nexists>out. fst (filterPortfolioDataByPermissions
                      (example_services (Inl (Thrown Undefined)) None)
                      (Str ''exec-sales-001'') (Ref 5) example_world) = Inr out)"
  by (simp add: filterPortfolioDataByPermissions_def filterPortfolioDataByPermissions_try_def
        js_try_catch_def js_bind_def js_read_def error_message_def get_prop_def
        getUserPermissions_def example_services_def example_world_def)
section \<open>Business-unit scoping of the returned projects\<close>

lemma js_bind_InrE:
  assumes "js_bind m f w = (Inr y, w')"
  obtains x w1 where "m w = (Inr x, w1)" and "f x w1 = (Inr y, w')"
  using assms by (auto simp: js_bind_def split: prod.splits sum.splits)

lemma get_prop_append: "valid h v \<Longrightarrow> get_prop (h @ ex) v k = get_prop h v k"
  by (cases v) (simp_all add: get_prop_def valid_def cell_at_append_old)

lemma array_elems_append: "valid h v \<Longrightarrow> array_elems (h @ ex) v = array_elems h v"
  by (cases v) (simp_all add: array_elems_def valid_def cell_at_append_old)

lemma cell_at_update:
  "cell_at (h[r := c]) a = (if a = r \<and> r < length h then Some c else cell_at h a)"
  by (simp add: cell_at_def)

lemma map_of_assign: "map_of (assign k v ps) k' = (if k' = k then Some v else map_of ps k')"
  by (induction ps) auto

lemma get_prop_update:
  assumes "cell_at h r = Some (Obj ps)" and "map_of ps' k = map_of ps k"
  shows "get_prop (h[r := Obj ps']) v k = get_prop h v k"
proof (cases v)
  case (Ref a)
  from assms(1) have "r < length h" by (simp add: cell_at_def split: if_splits)
  with Ref assms show ?thesis
    by (simp add: get_prop_def cell_at_update own_property_def)
qed (simp_all add: get_prop_def)

lemma digit_char_digit: "d < 10 \<Longrightarrow> digit_char d \<in> set ''0123456789''"
  unfolding digit_char_def by (rule nth_mem) simp

lemma decimal_of_nat_digits: "set (decimal_of_nat n) \<subseteq> set ''0123456789''"
proof (induction n rule: decimal_of_nat.induct)
  case (1 n)
  show ?case
  proof (cases "n < 10")
    case True
    then show ?thesis
      using digit_char_digit [of n] by (subst decimal_of_nat.simps) simp
  next
    case False
    have "n mod 10 < 10" by simp
    from digit_char_digit [OF this] "1.IH" [OF False] False show ?thesis
      by (subst decimal_of_nat.simps) simp
  qed
qed

lemma businessUnit_not_index: "''businessUnit'' \<notin> set (index_keys n)"
proof
  assume "''businessUnit'' \<in> set (index_keys n)"
  then obtain i where "''businessUnit'' = decimal_of_nat i" by (auto simp: index_keys_def)
  with decimal_of_nat_digits [of i] have "set ''businessUnit'' \<subseteq> set ''0123456789''" by simp
  then show False by simp
qed

lemma map_of_zip_absent: "k \<notin> set ks \<Longrightarrow> map_of (zip ks xs) k = None"
  by (auto simp: map_of_eq_None_iff dest: set_zip_leftD)

lemma spread_props_businessUnit:
  assumes "get_prop h e ''businessUnit'' = Inr unit"
  shows "own_property (spread_props h e) ''businessUnit'' = unit"
proof (cases e)
  case (Ref a)
  show ?thesis
  proof (cases "cell_at h a")
    case None
    with Ref assms show ?thesis by (simp add: get_prop_def spread_props_def own_property_def)
  next
    case (Some c)
    with Ref assms show ?thesis
      by (cases c)
         (simp_all add: get_prop_def spread_props_def own_property_def
            map_of_zip_absent [OF businessUnit_not_index])
  qed
next
  case (Str s)
  with assms show ?thesis
    by (simp add: get_prop_def spread_props_def own_property_def
          map_of_zip_absent [OF businessUnit_not_index])
qed (use assms in \<open>simp_all add: get_prop_def spread_props_def own_property_def\<close>)

lemma reduce_scopes:
  "Array_reduce
     (\<lambda>units permission.
        ebind (json_get (Some permission) ''scope'') (\<lambda>sc. Inr (Array_concat units sc)))
     acc (map permission_json qs)
   = Inr (acc @ concat (map (\<lambda>p. map (\<lambda>s. Some (JString s)) (scope p)) qs))"
  by (induction qs arbitrary: acc)
     (simp_all add: permission_json_def json_get_def Array_concat_def comp_def)

lemma same_value_zero_JString: "same_value_zero v (Some (JString s)) \<longleftrightarrow> v = Str s"
  by (cases v) auto

lemma Array_includes_scopes:
  "Array_includes (concat (map (\<lambda>p. map (\<lambda>s. Some (JString s)) (scope p)) qs)) v
     \<longleftrightarrow> (\<exists>s \<in> (\<Union>p \<in> set qs. set (scope p)). v = Str s)"
  by (auto simp: Array_includes_def list_ex_iff same_value_zero_JString)

lemma holds_filter: "holds ps t \<longleftrightarrow> filter (\<lambda>p. type p = t) ps \<noteq> []"
  by (auto simp: holds_def list_ex_iff filter_empty_conv)

lemma filterProjectsByBusinessUnit_result:
  "filterProjectsByBusinessUnit pv (permissions_json ps) w =
     (if \<not> holds ps ''PORTFOLIO_VIEW'' then
        (Inr (Ref (length (store w))), w\<lparr>store := store w @ [Arr []]\<rparr>)
      else
        case ebind (array_elems (store w) pv)
               (Array_filter
                  (\<lambda>project. ebind (get_prop (store w) project ''businessUnit'')
                                (\<lambda>unit. Inr (unit_authorized ps unit)))) of
          Inl e \<Rightarrow> (Inl e, w)
        | Inr kept \<Rightarrow> (Inr (Ref (length (store w))), w\<lparr>store := store w @ [Arr kept]\<rparr>))"
proof -
  let ?qs = "filter (\<lambda>p. type p = ''PORTFOLIO_VIEW'') ps"
  have inc: "Array_includes
               (concat (map (\<lambda>p. map (\<lambda>s. Some (JString s)) (scope p)) ?qs)) v
             \<or> Array_includes
               (concat (map (\<lambda>p. map (\<lambda>s. Some (JString s)) (scope p)) ?qs)) (Str ''All_Units'')
             \<longleftrightarrow> unit_authorized ps v" for v
    unfolding Array_includes_scopes unit_authorized_def authorized_units_def by auto
  show ?thesis
    unfolding filterProjectsByBusinessUnit_def
    by (simp add: js_bind_def js_lift_def js_read_def js_alloc_def permissions_json_def
          json_array_def Array_filter_has_type reduce_scopes inc holds_filter
          split: sum.splits)
qed

lemma Array_filter_accepts:
  "Array_filter f xs = Inr ys \<Longrightarrow> y \<in> set ys \<Longrightarrow> y \<in> set xs \<and> f y = Inr True"
  using Array_filter_subset [of f xs ys] by blast

lemma Array_filter_all:
  "(\<And>x. x \<in> set xs \<Longrightarrow> f x = Inr True) \<Longrightarrow> Array_filter f xs = Inr xs"
  by (induction xs) simp_all

lemma filterProjectsByBusinessUnit_kept:
  assumes "filterProjectsByBusinessUnit pv (permissions_json ps) w = (Inr scoped, w')"
  shows "\<exists>kept. scoped = Ref (length (store w)) \<and> w' = w\<lparr>store := store w @ [Arr kept]\<rparr>
           \<and> (\<not> holds ps ''PORTFOLIO_VIEW'' \<longrightarrow> kept = [])
           \<and> (\<forall>e \<in> set kept.
                 (\<exists>elems. array_elems (store w) pv = Inr elems \<and> e \<in> set elems)
               \<and> (\<exists>unit. get_prop (store w) e ''businessUnit'' = Inr unit
                          \<and> unit_authorized ps unit))"
proof (cases "holds ps ''PORTFOLIO_VIEW''")
  case False
  with assms show ?thesis by (auto simp: filterProjectsByBusinessUnit_result)
next
  case True
  let ?f = "\<lambda>project. ebind (get_prop (store w) project ''businessUnit'')
                                (\<lambda>unit. Inr (unit_authorized ps unit))"
  from assms True obtain elems kept where e: "array_elems (store w) pv = Inr elems"
    and k: "Array_filter ?f elems = Inr kept"
    and r: "scoped = Ref (length (store w))" "w' = w\<lparr>store := store w @ [Arr kept]\<rparr>"
    by (cases "array_elems (store w) pv")
       (auto simp: filterProjectsByBusinessUnit_result split: sum.splits)
  have "(\<exists>unit. get_prop (store w) x ''businessUnit'' = Inr unit \<and> unit_authorized ps unit)
        \<and> x \<in> set elems" if "x \<in> set kept" for x
  proof -
    from Array_filter_accepts [OF k that] have x: "x \<in> set elems" and a: "?f x = Inr True"
      by simp_all
    from a show ?thesis using x by (cases "get_prop (store w) x ''businessUnit''") simp_all
  qed
  with e r True show ?thesis by blast
qed

lemma cell_at_append_ge: "cell_at (h @ ex) (length h + i) = cell_at ex i"
  by (simp add: cell_at_def nth_append)

lemma cell_at_length: "cell_at h a = Some c \<Longrightarrow> a < length h"
  by (simp add: cell_at_def split: if_splits)

lemma set_prop_object:
  assumes "cell_at (store w) r = Some (Obj ps)"
  shows "set_prop (Ref r) k v w = (Inr (), w\<lparr>store := (store w)[r := Obj (assign k v ps)]\<rparr>)"
  using assms by (simp add: set_prop_def)

lemma own_property_assign: "own_property (assign k v ps) k = v"
  by (simp add: own_property_def map_of_assign)

lemma projects_block:
  assumes run: "filterPortfolioDataByPermissions_projects (Ref r) (permissions_json ps) w1
                  = (Inr u, w2)"
      and cell: "cell_at (store w1) r = Some (Obj ps0)"
      and ok: "\<And>elems e. array_elems (store w1) (own_property ps0 ''projects'') = Inr elems
                  \<Longrightarrow> e \<in> set elems \<Longrightarrow> valid (store w1) e"
  shows "\<exists>a refs ps2.
           a \<noteq> r \<and> cell_at (store w2) r = Some (Obj ps2)
         \<and> map_of ps2 ''projects'' = Some (Ref a)
         \<and> cell_at (store w2) a = Some (Arr refs)
         \<and> (\<not> holds ps ''PORTFOLIO_VIEW'' \<longrightarrow> refs = [])
         \<and> (\<forall>q \<in> set refs. \<exists>c props.
               q = Ref c \<and> c \<noteq> r \<and> cell_at (store w2) c = Some (Obj props)
             \<and> unit_authorized ps (own_property props ''businessUnit'')
             \<and> (\<exists>original. props = redact ps original))"
proof -
  let ?n1 = "length (store w1)"
  from cell have r1: "r < ?n1" by (rule cell_at_length)
  from run obtain unfiltered wa where
      s1: "js_read (\<lambda>h. get_prop h (Ref r) ''projects'') w1 = (Inr unfiltered, wa)"
    and run2: "js_bind (filterProjectsByBusinessUnit unfiltered (permissions_json ps)) (\<lambda>scoped.
     js_bind (set_prop (Ref r) ''projects'' scoped) (\<lambda>_.
     js_bind (js_read (\<lambda>h. get_prop h (Ref r) ''projects'')) (\<lambda>unredacted.
     js_bind (filterSensitiveProjectData unredacted (permissions_json ps)) (\<lambda>redacted.
     set_prop (Ref r) ''projects'' redacted)))) wa = (Inr u, w2)"
    unfolding filterPortfolioDataByPermissions_projects_def by (rule js_bind_InrE)
  from s1 cell have unf: "unfiltered = own_property ps0 ''projects''" and wa: "wa = w1"
    by (simp_all add: js_read_def get_prop_def)
  from run2 obtain scoped wb where
      s2: "filterProjectsByBusinessUnit unfiltered (permissions_json ps) w1 = (Inr scoped, wb)"
    and run3: "js_bind (set_prop (Ref r) ''projects'' scoped) (\<lambda>_.
     js_bind (js_read (\<lambda>h. get_prop h (Ref r) ''projects'')) (\<lambda>unredacted.
     js_bind (filterSensitiveProjectData unredacted (permissions_json ps)) (\<lambda>redacted.
     set_prop (Ref r) ''projects'' redacted))) wb = (Inr u, w2)"
    unfolding wa by (rule js_bind_InrE)
  from filterProjectsByBusinessUnit_kept [OF s2] obtain kept where
      scoped: "scoped = Ref ?n1" and wb: "wb = w1\<lparr>store := store w1 @ [Arr kept]\<rparr>"
    and none: "\<not> holds ps ''PORTFOLIO_VIEW'' \<longrightarrow> kept = []"
    and kept: "\<forall>e \<in> set kept.
                 (\<exists>elems. array_elems (store w1) unfiltered = Inr elems \<and> e \<in> set elems)
               \<and> (\<exists>unit. get_prop (store w1) e ''businessUnit'' = Inr unit
                          \<and> unit_authorized ps unit)"
    by blast
  have valid1: "valid (store w1) e" if "e \<in> set kept" for e
    using kept that ok unfolding unf by blast
  let ?ps1 = "assign ''projects'' (Ref ?n1) ps0"
  let ?hc = "(store w1 @ [Arr kept])[r := Obj ?ps1]"
  have cellb: "cell_at (store wb) r = Some (Obj ps0)"
    using cell r1 by (simp add: wb cell_at_append_old)
  from run3 obtain x3 wc where
      s3: "set_prop (Ref r) ''projects'' scoped wb = (Inr x3, wc)"
    and run4: "js_bind (js_read (\<lambda>h. get_prop h (Ref r) ''projects'')) (\<lambda>unredacted.
     js_bind (filterSensitiveProjectData unredacted (permissions_json ps)) (\<lambda>redacted.
     set_prop (Ref r) ''projects'' redacted)) wc = (Inr u, w2)"
    by (rule js_bind_InrE)
  from s3 have wc: "store wc = ?hc"
    unfolding set_prop_object [OF cellb] by (auto simp: wb scoped)
  have lenc: "length ?hc = Suc ?n1" by simp
  have cellc: "cell_at ?hc r = Some (Obj ?ps1)"
    using r1 by (simp add: cell_at_update)
  from run4 obtain unredacted wd where
      s4: "js_read (\<lambda>h. get_prop h (Ref r) ''projects'') wc = (Inr unredacted, wd)"
    and run5: "js_bind (filterSensitiveProjectData unredacted (permissions_json ps)) (\<lambda>redacted.
     set_prop (Ref r) ''projects'' redacted) wd = (Inr u, w2)"
    by (rule js_bind_InrE)
  from s4 have unr: "unredacted = Ref ?n1" and wd: "wd = wc"
    by (simp_all add: js_read_def get_prop_def wc cellc own_property_assign)
  from run5 obtain redacted we where
      s5: "filterSensitiveProjectData (Ref ?n1) (permissions_json ps) wc = (Inr redacted, we)"
    and s6: "set_prop (Ref r) ''projects'' redacted we = (Inr u, w2)"
    unfolding unr wd by (rule js_bind_InrE)
  have elemsc: "array_elems (store wc) (Ref ?n1) = Inr kept"
    using r1 by (simp add: wc array_elems_def cell_at_update cell_at_def nth_append)
  have validc: "\<forall>e \<in> set kept. valid (store wc) e"
  proof
    fix e assume "e \<in> set kept"
    from valid1 [OF this] show "valid (store wc) e"
      by (cases e) (simp_all add: valid_def wc)
  qed
  let ?n3 = "Suc ?n1"
  let ?copies = "map (\<lambda>e. Obj (redact ps (spread_props (store wc) e))) kept"
  let ?refs = "map Ref [?n3..<?n3 + length kept]"
  from s5 have redacted: "redacted = Ref (?n3 + length kept)"
    and we: "store we = ?hc @ ?copies @ [Arr ?refs]"
    unfolding filterSensitiveProjectData_result [OF elemsc validc]
    by (auto simp: wc)
  let ?a = "?n3 + length kept"
  let ?ps2 = "assign ''projects'' (Ref ?a) ?ps1"
  have celle: "cell_at (store we) r = Some (Obj ?ps1)"
    using r1 by (simp add: we cell_at_append_old cell_at_update)
  from s6 have w2: "store w2 = (?hc @ ?copies @ [Arr ?refs])[r := Obj ?ps2]"
    unfolding set_prop_object [OF celle] by (auto simp: we redacted)
  have ar: "?a \<noteq> r" using r1 by simp
  have c_r: "cell_at (store w2) r = Some (Obj ?ps2)"
    using r1 by (simp add: w2 cell_at_update)
  have c_a: "cell_at (store w2) ?a = Some (Arr ?refs)"
    using r1 by (simp add: w2 cell_at_update cell_at_def nth_append)
  have each: "\<exists>c props. q = Ref c \<and> c \<noteq> r \<and> cell_at (store w2) c = Some (Obj props)
             \<and> unit_authorized ps (own_property props ''businessUnit'')
             \<and> (\<exists>original. props = redact ps original)" if "q \<in> set ?refs" for q
  proof -
    from that obtain x where qx: "q = Ref x" and lo: "?n3 \<le> x" and hi: "x < ?n3 + length kept"
      by (auto simp del: upt_Suc)
    define i where "i = x - ?n3"
    from lo hi have i: "i < length kept" and x: "x = ?n3 + i" by (simp_all add: i_def)
    from qx x have q: "q = Ref (?n3 + i)" by simp
    let ?e = "kept ! i"
    from i have e: "?e \<in> set kept" by simp
    from kept e obtain unit where
        bu: "get_prop (store w1) ?e ''businessUnit'' = Inr unit" and au: "unit_authorized ps unit"
      by blast
    have "get_prop (store w1 @ [Arr kept]) ?e ''businessUnit'' = Inr unit"
      using bu valid1 [OF e] by (simp add: get_prop_append)
    moreover have "cell_at (store w1 @ [Arr kept]) r = Some (Obj ps0)"
      using cell r1 by (simp add: cell_at_append_old)
    ultimately have "get_prop ?hc ?e ''businessUnit'' = Inr unit"
      by (simp add: get_prop_update map_of_assign)
    then have own: "own_property (spread_props (store wc) ?e) ''businessUnit'' = unit"
      unfolding wc by (rule spread_props_businessUnit)
    have cell_q: "cell_at (store w2) (?n3 + i) = Some (Obj (redact ps (spread_props (store wc) ?e)))"
      using r1 i by (simp add: w2 cell_at_update cell_at_def nth_append)
    have "own_property (redact ps (spread_props (store wc) ?e)) ''businessUnit'' = unit"
      using own by (simp add: own_property_def map_of_redact)
    with au cell_q q r1 show ?thesis by auto
  qed
  have none': "\<not> holds ps ''PORTFOLIO_VIEW'' \<longrightarrow> ?refs = []" using none by simp
  have m: "map_of ?ps2 ''projects'' = Some (Ref ?a)" by (simp add: map_of_assign)
  from ar c_r m c_a none' each show ?thesis by blast
qed

lemma grown_cell:
  assumes "grown h h' xs" and "length h \<le> a" and "cell_at h' a = Some c"
  shows "\<forall>x \<in> set (cell_vals c). not_below (length h) x \<and> valid h' x"
proof -
  from assms(1) obtain ex where h': "h' = h @ ex"
    and c: "\<forall>c \<in> set ex. \<forall>x \<in> set (cell_vals c). not_below (length h) x \<and> valid h' x"
    unfolding grown_def by blast
  from assms(3) have a: "a < length h'" and ca: "c = h' ! a"
    by (simp_all add: cell_at_def split: if_splits)
  from a assms(2) have "a - length h < length ex" unfolding h' by simp
  then have "ex ! (a - length h) \<in> set ex" by (rule nth_mem)
  with assms(2) have "c \<in> set ex" by (simp add: ca h' nth_append)
  with c show ?thesis by blast
qed

lemma array_elems_Ref:
  "array_elems h v = Inr xs \<Longrightarrow> \<exists>a. v = Ref a \<and> cell_at h a = Some (Arr xs)"
  by (cases v) (auto simp: array_elems_def split: option.splits cell.splits)

lemma get_prop_truthy:
  assumes "get_prop h v k = Inr x" and "truthy x"
  shows "\<exists>r ps. v = Ref r \<and> cell_at h r = Some (Obj ps) \<and> x = own_property ps k"
  using assms
  by (cases v) (auto simp: get_prop_def split: option.splits cell.splits)

lemma delete_prop_effect:
  assumes "delete_prop obj k w = (Inr y, w')"
  shows "(\<forall>a. obj \<noteq> Ref a \<longrightarrow> cell_at (store w') a = cell_at (store w) a)
       \<and> (\<forall>a ps. cell_at (store w) a = Some (Obj ps) \<longrightarrow>
             (\<exists>ps'. cell_at (store w') a = Some (Obj ps')
                  \<and> (\<forall>k'. k' \<noteq> k \<longrightarrow> map_of ps' k' = map_of ps k')))
       \<and> (\<forall>a xs. cell_at (store w) a = Some (Arr xs) \<longrightarrow> cell_at (store w') a = Some (Arr xs))"
proof (cases "\<exists>r ps. obj = Ref r \<and> cell_at (store w) r = Some (Obj ps)")
  case True
  then obtain r ps where o: "obj = Ref r" and c: "cell_at (store w) r = Some (Obj ps)" by blast
  from assms o c have w': "store w' = (store w)[r := Obj (filter (\<lambda>(k', v'). k' \<noteq> k) ps)]"
    by (auto simp: delete_prop_def)
  from c have r: "r < length (store w)" by (rule cell_at_length)
  show ?thesis
    using o c r by (auto simp: w' cell_at_update map_of_filter_key)
next
  case False
  with assms have "store w' = store w"
    by (auto simp: delete_prop_def split: val.splits option.splits cell.splits)
  then show ?thesis by simp
qed

lemma try_scoped:
  assumes ad: "forgeUserAdapter_getUserPermissions sv executiveUserId = Inr (permissions_json ps)"
      and run: "filterPortfolioDataByPermissions_try sv executiveUserId portfolioData w
                  = (Inr out, w')"
      and pr: "get_prop (store w') out ''projects'' = Inr parr"
      and ar: "array_elems (store w') parr = Inr returned"
  shows "(\<forall>q \<in> set returned. \<exists>unit. get_prop (store w') q ''businessUnit'' = Inr unit
                                  \<and> unit_authorized ps unit)
       \<and> (\<not> holds ps ''PORTFOLIO_VIEW'' \<longrightarrow> returned = [])
       \<and> (\<forall>q \<in> set returned. \<exists>original. spread_props (store w') q = redact ps original)"
proof -
  from run obtain up w0 where
      s1: "getUserPermissions sv executiveUserId w = (Inr up, w0)"
    and run2: "js_bind (js_read (\<lambda>h. JSON_stringify h portfolioData)) (\<lambda>text.
     js_bind (JSON_parse text) (\<lambda>filteredData.
     js_bind (js_read (\<lambda>h. get_prop h filteredData ''projects'')) (\<lambda>present.
     js_bind (if truthy present then
                filterPortfolioDataByPermissions_projects filteredData up
              else js_return ()) (\<lambda>_.
     js_bind (js_lift (hasPermissionType up ''FINANCIAL_DATA'')) (\<lambda>financial.
     js_bind (if \<not> financial then delete_prop filteredData ''financialData''
              else js_return ()) (\<lambda>_.
     js_return filteredData)))))) w0 = (Inr out, w')"
    unfolding filterPortfolioDataByPermissions_try_def by (rule js_bind_InrE)
  from s1 ad have up: "up = permissions_json ps"
    by (simp add: getUserPermissions_def)
  from run2 obtain jtext w0' where
      s2: "js_read (\<lambda>h. JSON_stringify h portfolioData) w0 = (Inr jtext, w0')"
    and run3: "js_bind (JSON_parse jtext) (\<lambda>filteredData.
     js_bind (js_read (\<lambda>h. get_prop h filteredData ''projects'')) (\<lambda>present.
     js_bind (if truthy present then
                filterPortfolioDataByPermissions_projects filteredData up
              else js_return ()) (\<lambda>_.
     js_bind (js_lift (hasPermissionType up ''FINANCIAL_DATA'')) (\<lambda>financial.
     js_bind (if \<not> financial then delete_prop filteredData ''financialData''
              else js_return ()) (\<lambda>_.
     js_return filteredData))))) w0' = (Inr out, w')"
    by (rule js_bind_InrE)
  from s2 have w0': "w0' = w0" by (auto simp: js_read_def)
  from run3 obtain fd w1 where
      s3: "JSON_parse jtext w0 = (Inr fd, w1)"
    and run4: "js_bind (js_read (\<lambda>h. get_prop h fd ''projects'')) (\<lambda>present.
     js_bind (if truthy present then
                filterPortfolioDataByPermissions_projects fd up
              else js_return ()) (\<lambda>_.
     js_bind (js_lift (hasPermissionType up ''FINANCIAL_DATA'')) (\<lambda>financial.
     js_bind (if \<not> financial then delete_prop fd ''financialData''
              else js_return ()) (\<lambda>_.
     js_return fd)))) w1 = (Inr out, w')"
    unfolding w0' by (rule js_bind_InrE)
  from s3 obtain j where p: "parse j (store w0) = (fd, store w1)"
    by (cases jtext; cases "parse (the jtext) (store w0)") (auto simp: JSON_parse_def)
  note g = parse_grown(1) [OF p]
  from run4 obtain present w1' where
      s4: "js_read (\<lambda>h. get_prop h fd ''projects'') w1 = (Inr present, w1')"
    and run5: "js_bind (if truthy present then
                filterPortfolioDataByPermissions_projects fd up
              else js_return ()) (\<lambda>_.
     js_bind (js_lift (hasPermissionType up ''FINANCIAL_DATA'')) (\<lambda>financial.
     js_bind (if \<not> financial then delete_prop fd ''financialData''
              else js_return ()) (\<lambda>_.
     js_return fd))) w1' = (Inr out, w')"
    by (rule js_bind_InrE)
  from s4 have present: "get_prop (store w1) fd ''projects'' = Inr present" and w1': "w1' = w1"
    by (auto simp: js_read_def)
  from run5 obtain x5 w2 where
      s5: "(if truthy present then filterPortfolioDataByPermissions_projects fd up
            else js_return ()) w1 = (Inr x5, w2)"
    and run6: "js_bind (js_lift (hasPermissionType up ''FINANCIAL_DATA'')) (\<lambda>financial.
     js_bind (if \<not> financial then delete_prop fd ''financialData''
              else js_return ()) (\<lambda>_.
     js_return fd)) w2 = (Inr out, w')"
    unfolding w1' by (rule js_bind_InrE)
  from run6 obtain fin w2' where
      s6: "js_lift (hasPermissionType up ''FINANCIAL_DATA'') w2 = (Inr fin, w2')"
    and run7: "js_bind (if \<not> fin then delete_prop fd ''financialData''
              else js_return ()) (\<lambda>_. js_return fd) w2' = (Inr out, w')"
    by (rule js_bind_InrE)
  from s6 have w2': "w2' = w2" by (auto simp: js_lift_def)
  from run7 obtain x7 w3 where
      s7: "(if \<not> fin then delete_prop fd ''financialData'' else js_return ()) w2 = (Inr x7, w3)"
    and s8: "js_return fd w3 = (Inr out, w')"
    unfolding w2' by (rule js_bind_InrE)
  from s8 have out: "out = fd" and w': "w' = w3" by (auto simp: js_return_def)
  have last:
    "(\<forall>a. fd \<noteq> Ref a \<longrightarrow> cell_at (store w3) a = cell_at (store w2) a)
       \<and> (\<forall>a ps. cell_at (store w2) a = Some (Obj ps) \<longrightarrow>
             (\<exists>ps'. cell_at (store w3) a = Some (Obj ps')
                  \<and> (\<forall>k'. k' \<noteq> ''financialData'' \<longrightarrow> map_of ps' k' = map_of ps k')))
       \<and> (\<forall>a xs. cell_at (store w2) a = Some (Arr xs) \<longrightarrow> cell_at (store w3) a = Some (Arr xs))"
  proof (cases fin)
    case True
    with s7 have "w3 = w2" by (simp add: js_return_def)
    then show ?thesis by simp
  next
    case False
    with s7 have "delete_prop fd ''financialData'' w2 = (Inr x7, w3)" by simp
    then show ?thesis by (rule delete_prop_effect)
  qed
  from ar obtain pa where parr: "parr = Ref pa" and c_pa: "cell_at (store w3) pa = Some (Arr returned)"
    unfolding w' using array_elems_Ref by blast
  from pr parr obtain r ps3 where fd: "fd = Ref r" and c_r3: "cell_at (store w3) r = Some (Obj ps3)"
    and m3: "own_property ps3 ''projects'' = Ref pa"
    unfolding w' out using get_prop_truthy [of "store w3" fd "''projects''" "Ref pa"] by auto
  show ?thesis
  proof (cases "truthy present")
    case False
    with s5 have w2: "w2 = w1" by (simp add: js_return_def)
    from present fd have "\<exists>ps1. cell_at (store w1) r = Some (Obj ps1)
                             \<and> own_property ps1 ''projects'' = Ref pa"
    proof (cases "cell_at (store w2) r")
      case None
      with last fd c_r3 show ?thesis
        by (cases fin) (use s7 w2 in \<open>auto simp: js_return_def delete_prop_def\<close>)
    next
      case (Some c)
      show ?thesis
      proof (cases c)
        case (Obj ps1)
        with Some last obtain ps' where "cell_at (store w3) r = Some (Obj ps')"
          and "\<forall>k'. k' \<noteq> ''financialData'' \<longrightarrow> map_of ps' k' = map_of ps1 k'" by blast
        with c_r3 m3 have "own_property ps1 ''projects'' = Ref pa"
          by (simp add: own_property_def)
        with Some Obj w2 show ?thesis by simp
      next
        case (Arr xs)
        with Some last have "cell_at (store w3) r = Some (Arr xs)" by blast
        with c_r3 show ?thesis by simp
      qed
    qed
    then obtain ps1 where "cell_at (store w1) r = Some (Obj ps1)"
      and "own_property ps1 ''projects'' = Ref pa" by blast
    with present fd have "present = Ref pa" by (simp add: get_prop_def)
    with False show ?thesis by simp
  next
    case True
    with s5 have block: "filterPortfolioDataByPermissions_projects (Ref r) (permissions_json ps) w1
                           = (Inr x5, w2)"
      by (simp add: fd up)
    from get_prop_truthy [OF present True] fd obtain ps0 where
        c0: "cell_at (store w1) r = Some (Obj ps0)" and p0: "present = own_property ps0 ''projects''"
      by auto
    from g fd have rn: "length (store w0) \<le> r" by (auto simp: grown_def)
    note root = grown_cell [OF g rn c0]
    have ok: "valid (store w1) e"
      if el: "array_elems (store w1) (own_property ps0 ''projects'') = Inr elems"
        and e: "e \<in> set elems" for elems e
    proof -
      from array_elems_Ref [OF el] obtain a where a: "own_property ps0 ''projects'' = Ref a"
        and ca: "cell_at (store w1) a = Some (Arr elems)" by blast
      from own_property_cases [of ps0 "''projects''"] a
      have "Ref a \<in> set (cell_vals (Obj ps0))" by auto
      with root have "length (store w0) \<le> a" by fastforce
      from grown_cell [OF g this ca] e show ?thesis by simp
    qed
    have "\<exists>a refs ps2.
           a \<noteq> r \<and> cell_at (store w2) r = Some (Obj ps2)
         \<and> map_of ps2 ''projects'' = Some (Ref a)
         \<and> cell_at (store w2) a = Some (Arr refs)
         \<and> (\<not> holds ps ''PORTFOLIO_VIEW'' \<longrightarrow> refs = [])
         \<and> (\<forall>q \<in> set refs. \<exists>c props.
               q = Ref c \<and> c \<noteq> r \<and> cell_at (store w2) c = Some (Obj props)
             \<and> unit_authorized ps (own_property props ''businessUnit'')
             \<and> (\<exists>original. props = redact ps original))"
      by (rule projects_block [OF block c0]) (rule ok, assumption+)
    then obtain a refs ps2 where
        ar2: "a \<noteq> r" and c_r2: "cell_at (store w2) r = Some (Obj ps2)"
      and m2: "map_of ps2 ''projects'' = Some (Ref a)"
      and c_a2: "cell_at (store w2) a = Some (Arr refs)"
      and none: "\<not> holds ps ''PORTFOLIO_VIEW'' \<longrightarrow> refs = []"
      and each: "\<forall>q \<in> set refs. \<exists>c props.
               q = Ref c \<and> c \<noteq> r \<and> cell_at (store w2) c = Some (Obj props)
             \<and> unit_authorized ps (own_property props ''businessUnit'')
             \<and> (\<exists>original. props = redact ps original)"
      by (elim exE conjE)
    from last c_r2 obtain ps' where "cell_at (store w3) r = Some (Obj ps')"
      and "\<forall>k'. k' \<noteq> ''financialData'' \<longrightarrow> map_of ps' k' = map_of ps2 k'" by blast
    with c_r3 m2 m3 have "pa = a" by (simp add: own_property_def)
    moreover from last c_a2 have "cell_at (store w3) a = Some (Arr refs)" by blast
    ultimately have ret: "returned = refs" using c_pa by simp
    have "(\<exists>unit. get_prop (store w') q ''businessUnit'' = Inr unit \<and> unit_authorized ps unit)
          \<and> (\<exists>original. spread_props (store w') q = redact ps original)"
      if "q \<in> set returned" for q
    proof -
      from that each ret obtain c props original where q: "q = Ref c" and cr: "c \<noteq> r"
        and cc: "cell_at (store w2) c = Some (Obj props)"
        and au: "unit_authorized ps (own_property props ''businessUnit'')"
        and re: "props = redact ps original" by blast
      from last cr fd have same: "cell_at (store w3) c = cell_at (store w2) c" by simp
      with cc q have "get_prop (store w') q ''businessUnit''
                        = Inr (own_property props ''businessUnit'')"
        by (simp add: get_prop_def w')
      moreover from same cc q re have "spread_props (store w') q = redact ps original"
        by (simp add: spread_props_def w')
      ultimately show ?thesis using au by blast
    qed
    with none ret show ?thesis by blast
  qed
qed

lemma get_prop_defined:
  "e \<noteq> Undefined \<Longrightarrow> e \<noteq> Null \<Longrightarrow> \<exists>unit. get_prop h e k = Inr unit"
  by (cases e) (auto simp: get_prop_def split: option.splits cell.splits)

lemma filterProjectsByBusinessUnit_all_units:
  assumes au: "''All_Units'' \<in> authorized_units ps"
      and el: "array_elems (store w) pv = Inr elems"
      and ob: "\<forall>e \<in> set elems. e \<noteq> Undefined \<and> e \<noteq> Null"
  shows "filterProjectsByBusinessUnit pv (permissions_json ps) w
           = (Inr (Ref (length (store w))), w\<lparr>store := store w @ [Arr elems]\<rparr>)"
proof -
  from au have h: "holds ps ''PORTFOLIO_VIEW''"
    by (auto simp: authorized_units_def holds_filter filter_empty_conv)
  have "Array_filter
          (\<lambda>project. ebind (get_prop (store w) project ''businessUnit'')
                        (\<lambda>unit. Inr (unit_authorized ps unit))) elems = Inr elems"
  proof (rule Array_filter_all)
    fix x assume "x \<in> set elems"
    with ob obtain unit where "get_prop (store w) x ''businessUnit'' = Inr unit"
      using get_prop_defined by blast
    with au show "ebind (get_prop (store w) x ''businessUnit'')
                    (\<lambda>unit. Inr (unit_authorized ps unit)) = Inr True"
      by (simp add: unit_authorized_def)
  qed
  with h el show ?thesis by (simp add: filterProjectsByBusinessUnit_result)
qed

lemma returned_projects:
  assumes ad: "forgeUserAdapter_getUserPermissions sv executiveUserId = Inr (permissions_json ps)"
      and res: "fst (filterPortfolioDataByPermissions sv executiveUserId portfolioData w) = Inr out"
      and pr: "get_prop (store (snd (filterPortfolioDataByPermissions sv executiveUserId
                                       portfolioData w))) out ''projects'' = Inr parr"
      and ar: "array_elems (store (snd (filterPortfolioDataByPermissions sv executiveUserId
                                          portfolioData w))) parr = Inr returned"
  shows "(\<forall>q \<in> set returned. \<exists>unit.
            get_prop (store (snd (filterPortfolioDataByPermissions sv executiveUserId
                                    portfolioData w))) q ''businessUnit'' = Inr unit
          \<and> unit_authorized ps unit)
       \<and> (\<not> holds ps ''PORTFOLIO_VIEW'' \<longrightarrow> returned = [])
       \<and> (\<forall>q \<in> set returned. \<exists>original.
            spread_props (store (snd (filterPortfolioDataByPermissions sv executiveUserId
                                        portfolioData w))) q = redact ps original)"
proof -
  let ?run = "filterPortfolioDataByPermissions sv executiveUserId portfolioData w"
  let ?body = "filterPortfolioDataByPermissions_try sv executiveUserId portfolioData w"
  obtain r0 w2 where t0: "?body = (r0, w2)" by (cases ?body)
  show ?thesis
  proof (cases r0)
    case (Inl e)
    with t0 have t: "?body = (Inl e, w2)" by simp
    from res filterPortfolioDataByPermissions_handler_raises [OF t]
    obtain m where "error_message (store w2) e = Inr m"
      by (cases "error_message (store w2) e") auto
    note f = filterPortfolioDataByPermissions_fails_closed [OF t this]
    from res f have out: "out = Ref (Suc (length (store w2)))" by simp
    from pr have "parr = Ref (length (store w2))"
      unfolding f out by (simp add: get_prop_def cell_at_def nth_append own_property_def)
    with ar have "returned = []"
      unfolding f by (simp add: array_elems_def cell_at_def nth_append)
    then show ?thesis by simp
  next
    case (Inr x)
    with t0 have t: "?body = (Inr x, w2)" by simp
    then have r: "?run = (Inr x, w2)"
      by (simp add: filterPortfolioDataByPermissions_def js_try_catch_def)
    from res r have x: "x = out" by simp
    from pr ar have pr': "get_prop (store w2) out ''projects'' = Inr parr"
      and ar': "array_elems (store w2) parr = Inr returned"
      unfolding r by simp_all
    from try_scoped [OF ad t [unfolded x] pr' ar'] show ?thesis unfolding r by simp
  qed
qed

text \<open>
  The projects returned by \<open>filterPortfolioDataByPermissions\<close> are redacted: without a
  \<open>FINANCIAL_DATA\<close> permission none has a \<open>budget\<close> or a \<open>revenue\<close> property, and without
  a \<open>DETAILED_METRICS\<close> permission none has a \<open>detailedMetrics\<close> property.
\<close>

lemma returned_projects_redacted:
  assumes "forgeUserAdapter_getUserPermissions sv executiveUserId = Inr (permissions_json ps)"
      and "fst (filterPortfolioDataByPermissions sv executiveUserId portfolioData w) = Inr out"
      and "get_prop (store (snd (filterPortfolioDataByPermissions sv executiveUserId
                                   portfolioData w))) out ''projects'' = Inr parr"
      and "array_elems (store (snd (filterPortfolioDataByPermissions sv executiveUserId
                                      portfolioData w))) parr = Inr returned"
      and "q \<in> set returned"
  shows "(\<not> holds ps ''FINANCIAL_DATA'' \<longrightarrow>
            map_of (spread_props (store (snd (filterPortfolioDataByPermissions sv executiveUserId
                                                portfolioData w))) q) ''budget'' = None
          \<and> map_of (spread_props (store (snd (filterPortfolioDataByPermissions sv executiveUserId
                                                portfolioData w))) q) ''revenue'' = None)
       \<and> (\<not> holds ps ''DETAILED_METRICS'' \<longrightarrow>
            map_of (spread_props (store (snd (filterPortfolioDataByPermissions sv executiveUserId
                                                portfolioData w))) q) ''detailedMetrics'' = None)"
proof -
  from returned_projects [OF assms(1-4)] assms(5) obtain original where
    "spread_props (store (snd (filterPortfolioDataByPermissions sv executiveUserId
                                 portfolioData w))) q = redact ps original"
    by blast
  then show ?thesis by (simp add: map_of_redact)
qed

text \<open>
  C1. Let the caller's permission list be \<open>ps\<close>. Every project in the list returned by
  \<open>filterPortfolioDataByPermissions\<close> has a \<open>businessUnit\<close> that is a name in the union of
  the scopes of the \<open>PORTFOLIO_VIEW\<close> permissions of \<open>ps\<close>, unless that union contains
  \<open>All_Units\<close>. When \<open>ps\<close> has no \<open>PORTFOLIO_VIEW\<close> entry the returned list is empty. When
  a \<open>PORTFOLIO_VIEW\<close> scope contains \<open>All_Units\<close>, the business-unit step
  (\<open>filterProjectsByBusinessUnit\<close>) keeps every project of the list it is given.
\<close>

theorem filterPortfolioDataByPermissions_business_units:
  assumes ad: "forgeUserAdapter_getUserPermissions sv executiveUserId = Inr (permissions_json ps)"
      and res: "fst (filterPortfolioDataByPermissions sv executiveUserId portfolioData w) = Inr out"
      and pr: "get_prop (store (snd (filterPortfolioDataByPermissions sv executiveUserId
                                       portfolioData w))) out ''projects'' = Inr parr"
      and ar: "array_elems (store (snd (filterPortfolioDataByPermissions sv executiveUserId
                                          portfolioData w))) parr = Inr returned"
  shows "(\<forall>q \<in> set returned. \<exists>unit.
            get_prop (store (snd (filterPortfolioDataByPermissions sv executiveUserId
                                    portfolioData w))) q ''businessUnit'' = Inr unit
          \<and> ((\<exists>s \<in> authorized_units ps. unit = Str s) \<or> ''All_Units'' \<in> authorized_units ps))
       \<and> ((\<forall>p \<in> set ps. type p \<noteq> ''PORTFOLIO_VIEW'') \<longrightarrow> returned = [])
       \<and> (''All_Units'' \<in> authorized_units ps \<longrightarrow>
            (\<forall>pv elems w1.
               array_elems (store w1) pv = Inr elems
               \<and> (\<forall>e \<in> set elems. e \<noteq> Undefined \<and> e \<noteq> Null)
               \<longrightarrow> filterProjectsByBusinessUnit pv (permissions_json ps) w1
                     = (Inr (Ref (length (store w1))), w1\<lparr>store := store w1 @ [Arr elems]\<rparr>)))"
proof -
  have nopv: "holds ps ''PORTFOLIO_VIEW'' \<longleftrightarrow> \<not> (\<forall>p \<in> set ps. type p \<noteq> ''PORTFOLIO_VIEW'')"
    by (auto simp: holds_def list_ex_iff)
  from returned_projects [OF ad res pr ar]
  have main: "(\<forall>q \<in> set returned. \<exists>unit.
            get_prop (store (snd (filterPortfolioDataByPermissions sv executiveUserId
                                    portfolioData w))) q ''businessUnit'' = Inr unit
          \<and> unit_authorized ps unit)
       \<and> (\<not> holds ps ''PORTFOLIO_VIEW'' \<longrightarrow> returned = [])"
    by simp
  show ?thesis
    using main filterProjectsByBusinessUnit_all_units
    unfolding unit_authorized_def nopv by blast
qed

theorem filterPortfolioDataByPermissions_business_units_witness:
  "fst (filterPortfolioDataByPermissions
          (example_services (Inr (permissions_json sales_permissions)) None)
          (Str ''exec-sales-001'') (Ref 5) example_world) = Inr (Ref 11)
   \<and> array_elems (store example_world) (Ref 3) = Inr [Ref 1, Ref 2]
   \<and> get_prop (store example_world) (Ref 2) ''businessUnit'' = Inr (Str ''Engineering'')
   \<and> get_prop (store (snd (filterPortfolioDataByPermissions
          (example_services (Inr (permissions_json sales_permissions)) None)
          (Str ''exec-sales-001'') (Ref 5) example_world))) (Ref 11) ''projects'' = Inr (Ref 14)
   \<and> array_elems (store (snd (filterPortfolioDataByPermissions
          (example_services (Inr (permissions_json sales_permissions)) None)
          (Str ''exec-sales-001'') (Ref 5) example_world))) (Ref 14) = Inr [Ref 13]
   \<and> get_prop (store (snd (filterPortfolioDataByPermissions
          (example_services (Inr (permissions_json sales_permissions)) None)
          (Str ''exec-sales-001'') (Ref 5) example_world))) (Ref 13) ''businessUnit''
       = Inr (Str ''Sales'')
   \<and> ''Sales'' \<in> authorized_units sales_permissions
   \<and> (\<exists>unit. get_prop (store (snd (filterPortfolioDataByPermissions
          (example_services (Inr (permissions_json sales_permissions)) None)
          (Str ''exec-sales-001'') (Ref 5) example_world))) (Ref 13) ''businessUnit'' = Inr unit
        \<and> ((\<exists>s \<in> authorized_units sales_permissions. unit = Str s)
            \<or> ''All_Units'' \<in> authorized_units sales_permissions))"
proof -
  let ?sv = "example_services (Inr (permissions_json sales_permissions)) None"
  let ?u = "Str ''exec-sales-001''"
  let ?run = "filterPortfolioDataByPermissions ?sv ?u (Ref 5) example_world"
  have ad: "forgeUserAdapter_getUserPermissions ?sv ?u = Inr (permissions_json sales_permissions)"
    by (simp add: example_services_def)
  have res: "fst ?run = Inr (Ref 11)" by code_simp
  have pr: "get_prop (store (snd ?run)) (Ref 11) ''projects'' = Inr (Ref 14)" by code_simp
  have ar: "array_elems (store (snd ?run)) (Ref 14) = Inr [Ref 13]" by code_simp
  have bu: "get_prop (store (snd ?run)) (Ref 13) ''businessUnit'' = Inr (Str ''Sales'')"
    by code_simp
  have inp: "array_elems (store example_world) (Ref 3) = Inr [Ref 1, Ref 2]" by code_simp
  have eng: "get_prop (store example_world) (Ref 2) ''businessUnit'' = Inr (Str ''Engineering'')"
    by code_simp
  have sales: "''Sales'' \<in> authorized_units sales_permissions"
    by (simp add: authorized_units_def sales_permissions_def)
  note inst = filterPortfolioDataByPermissions_business_units [OF ad res pr ar]
  from inst have "\<forall>q \<in> set [Ref 13]. \<exists>unit.
            get_prop (store (snd ?run)) q ''businessUnit'' = Inr unit
          \<and> ((\<exists>s \<in> authorized_units sales_permissions. unit = Str s)
              \<or> ''All_Units'' \<in> authorized_units sales_permissions)"
    by (rule conjunct1)
  then have one: "\<exists>unit. get_prop (store (snd ?run)) (Ref 13) ''businessUnit'' = Inr unit
          \<and> ((\<exists>s \<in> authorized_units sales_permissions. unit = Str s)
              \<or> ''All_Units'' \<in> authorized_units sales_permissions)"
    by simp
  from res inp eng pr ar bu sales one show ?thesis by (intro conjI)
qed

end
